theory Spec2Isabelle
  imports Complex_Main "HOL-Library.AList"
begin

section \<open>Strings and the cache key\<close>

text \<open>
  A JavaScript string is a sequence of UTF-16 code units. The model covers the code units
  below 256 (the Latin-1 block, which holds the Portuguese letters of the addresses): a
  \<^typ>\<open>char\<close> is one such code unit. On this block \<^verbatim>\<open>toLowerCase\<close> works unit by
  unit: A-Z and U+00C0..U+00DE (without the multiplication sign U+00D7) move up by 32,
  every other unit stays. The white space of \<^verbatim>\<open>trim\<close> and of the regular expression
  class \<^verbatim>\<open>\s\<close> is the same set: TAB, LF, VT, FF, CR, SPACE and NBSP.
\<close>

definition isWhiteSpace :: "char \<Rightarrow> bool" where
  "isWhiteSpace c \<longleftrightarrow> (of_char c :: nat) \<in> {9, 10, 11, 12, 13, 32, 160}"

definition isUpperCase :: "char \<Rightarrow> bool" where
  "isUpperCase c \<longleftrightarrow>
     (let n = (of_char c :: nat)
      in (65 \<le> n \<and> n \<le> 90) \<or> (192 \<le> n \<and> n \<le> 222 \<and> n \<noteq> 215))"

definition toLowerCaseChar :: "char \<Rightarrow> char" where
  "toLowerCaseChar c = (if isUpperCase c then char_of ((of_char c :: nat) + 32) else c)"

definition toLowerCase :: "string \<Rightarrow> string" where
  "toLowerCase s = map toLowerCaseChar s"

text \<open>\<^verbatim>\<open>String.prototype.trim\<close>: white space is removed at both ends.\<close>

definition trim :: "string \<Rightarrow> string" where
  "trim s = rev (dropWhile isWhiteSpace (rev (dropWhile isWhiteSpace s)))"

text \<open>
  \<^verbatim>\<open>s.replace(/\s+/g, ' ')\<close>: scanning from the left, every maximal run of white space
  (the match of the greedy \<^verbatim>\<open>\s+\<close>) is replaced by one space.
\<close>

function replaceWhitespaceRuns :: "string \<Rightarrow> string" where
  "replaceWhitespaceRuns [] = []"
| "replaceWhitespaceRuns (c # cs) =
     (if isWhiteSpace c then CHR '' '' # replaceWhitespaceRuns (dropWhile isWhiteSpace cs)
      else c # replaceWhitespaceRuns cs)"
  by pat_completeness auto
termination
  by (relation "measure length") (auto simp: length_dropWhile_le less_Suc_eq_le)

text \<open>\<^verbatim>\<open>getCacheKey(endereco)\<close>, line 70.\<close>

definition getCacheKey :: "string \<Rightarrow> string" where
  "getCacheKey endereco = replaceWhitespaceRuns (trim (toLowerCase endereco))"



















section \<open>Data model\<close>

text \<open>
  A JavaScript number that the code only tests for truthiness is a \<^typ>\<open>real option\<close>:
  \<open>None\<close> stands for \<^verbatim>\<open>null\<close>, \<^verbatim>\<open>undefined\<close> and \<^verbatim>\<open>NaN\<close> (all falsy), and zero is falsy too.
\<close>

definition truthy :: "real option \<Rightarrow> bool" where
  "truthy x = (case x of None \<Rightarrow> False | Some v \<Rightarrow> v \<noteq> 0)"

text \<open>The \<^verbatim>\<open>x || d\<close> of the constructor and of \<^verbatim>\<open>result.importance || 0\<close>.\<close>

definition orElse :: "'a::zero option \<Rightarrow> 'a \<Rightarrow> 'a" where
  "orElse x d = (case x of None \<Rightarrow> d | Some v \<Rightarrow> if v = 0 then d else v)"

text \<open>
  One candidate of the provider's answer, with \<^verbatim>\<open>parseFloat\<close> already applied to its
  \<^verbatim>\<open>lat\<close> and \<^verbatim>\<open>lon\<close> strings.
\<close>

record candidate =
  lat :: "real option"
  lon :: "real option"
  display_name :: string
  importance :: "real option"

text \<open>
  The outcome of one \<^verbatim>\<open>axios.get\<close>: the array \<^verbatim>\<open>response.data\<close> (a missing body is the
  empty array), or an exception (time-out, transport error, error status).
\<close>

datatype response = Candidates "candidate list" | Failure

text \<open>
  The provider is the environment: its answer to a query may depend on how many requests
  were issued before.
\<close>

type_synonym provider = "nat \<Rightarrow> string \<Rightarrow> response"

text \<open>The object returned by \<^verbatim>\<open>buscarCoordenadas\<close> and stored in the cache.\<close>

record resultado =
  latitude :: "real option"
  longitude :: "real option"
  endereco_formatado :: string
  confianca :: real
  cached :: bool

record cliente =
  ident :: nat
  nome :: string
  endereco :: string
  latitude :: "real option"
  longitude :: "real option"
  endereco_formatado :: "string option"
  confianca :: "real option"
  geocoded :: bool
  data_geocodificacao :: "nat option"
  cached :: bool

record stats =
  total :: nat
  processed :: nat
  success :: nat
  errors :: nat
  cached :: nat
  startTime :: "nat option"
  endTime :: "nat option"

text \<open>The argument of the \<^verbatim>\<open>onProgress\<close> callback.\<close>

record progresso =
  processados :: nat
  total :: nat
  atual :: string
  status :: bool
  coordenadas :: "resultado option"
  lote :: nat
  totalLotes :: nat
  stats :: stats

datatype event = Request string int | Sleep int | Progress progresso

text \<open>The content of the progress file.\<close>

record progress =
  processedIds :: "nat list"
  currentBatch :: nat
  timestamp :: nat
  stats :: stats

record options =
  rateLimitDelay :: "int option"
  batchSize :: "nat option"
  maxRetries :: "int option"
  retryDelay :: "int option"
  cacheEnabled :: "bool option"

text \<open>
  The state: the fields of the service object (\<open>rateLimitDelay\<close> to \<open>stats\<close>), and its
  environment: the contents of the cache file and of the progress file (\<open>None\<close> when the
  file is absent), whether the disk accepts a write, the clock in milliseconds (it advances
  when the code sleeps), the number of requests sent to the provider and the trace of
  requests, sleeps and progress callbacks. A JavaScript \<^verbatim>\<open>Map\<close> and a \<^verbatim>\<open>Set\<close> keep
  insertion order: the cache is an association list and the set of processed ids a list.
\<close>

record state =
  rateLimitDelay :: int
  batchSize :: nat
  maxRetries :: int
  retryDelay :: int
  cacheEnabled :: bool
  memoryCache :: "(string \<times> resultado) list"
  stats :: stats
  cacheFile :: "(string \<times> resultado) list option"
  progressFile :: "progress option"
  diskWritable :: bool
  clock :: nat
  requests :: nat
  trace :: "event list"

section \<open>The service\<close>

text \<open>The constructor, lines 6 to 30: a new service object in the environment of \<open>s\<close>.\<close>

definition GeocodingServiceAdvanced :: "options \<Rightarrow> state \<Rightarrow> state" where
  "GeocodingServiceAdvanced opts s =
     s\<lparr>state.rateLimitDelay := orElse (options.rateLimitDelay opts) 1000,
       state.batchSize := orElse (options.batchSize opts) 100,
       state.maxRetries := orElse (options.maxRetries opts) 3,
       state.retryDelay := orElse (options.retryDelay opts) 5000,
       state.cacheEnabled := (options.cacheEnabled opts \<noteq> Some False),
       memoryCache := [],
       state.stats := \<lparr>stats.total = 0, processed = 0, success = 0, errors = 0,
                        stats.cached = 0, startTime = None, endTime = None\<rparr>\<rparr>"

definition sleep :: "int \<Rightarrow> state \<Rightarrow> state" where
  "sleep ms s = s\<lparr>clock := clock s + nat ms, trace := trace s @ [Sleep ms]\<rparr>"

text \<open>\<^verbatim>\<open>loadCache\<close>, lines 35 to 50: every entry of the file is set in the memory cache.\<close>

definition loadCache :: "state \<Rightarrow> state" where
  "loadCache s =
     (if \<not> state.cacheEnabled s then s
      else case cacheFile s of
             None \<Rightarrow> s
           | Some cache \<Rightarrow>
               s\<lparr>memoryCache := fold (\<lambda>(key, v). AList.update key v) cache (memoryCache s)\<rparr>)"

text \<open>\<^verbatim>\<open>saveCache\<close>, lines 55 to 65; a failed write is logged and ignored.\<close>

definition saveCache :: "state \<Rightarrow> state" where
  "saveCache s =
     (if \<not> state.cacheEnabled s \<or> length (memoryCache s) = 0 then s
      else if diskWritable s then s\<lparr>cacheFile := Some (memoryCache s)\<rparr>
      else s)"

definition incSuccess :: "state \<Rightarrow> state" where
  "incSuccess s = s\<lparr>state.stats := (state.stats s)\<lparr>success := success (state.stats s) + 1\<rparr>\<rparr>"

definition incErrors :: "state \<Rightarrow> state" where
  "incErrors s = s\<lparr>state.stats := (state.stats s)\<lparr>errors := errors (state.stats s) + 1\<rparr>\<rparr>"

definition incCached :: "state \<Rightarrow> state" where
  "incCached s = s\<lparr>state.stats := (state.stats s)\<lparr>stats.cached := stats.cached (state.stats s) + 1\<rparr>\<rparr>"

definition incProcessed :: "state \<Rightarrow> state" where
  "incProcessed s = s\<lparr>state.stats := (state.stats s)\<lparr>processed := processed (state.stats s) + 1\<rparr>\<rparr>"

text \<open>The request of lines 105 to 121: the query is the address \<open>ender\<close> (the parameter
  \<^verbatim>\<open>endereco\<close>) followed by the country.\<close>

definition axiosGet :: "provider \<Rightarrow> string \<Rightarrow> int \<Rightarrow> state \<Rightarrow> response \<times> state" where
  "axiosGet P ender tentativa s =
     (P (requests s) (ender @ '', Brasil''),
      s\<lparr>requests := requests s + 1, trace := trace s @ [Request ender tentativa]\<rparr>)"

definition toResultado :: "candidate \<Rightarrow> resultado" where
  "toResultado result =
     \<lparr>resultado.latitude = lat result, resultado.longitude = lon result,
      resultado.endereco_formatado = display_name result,
      resultado.confianca = orElse (importance result) 0, resultado.cached = False\<rparr>"

text \<open>\<^verbatim>\<open>buscarCoordenadas\<close>, lines 101 to 152; \<open>None\<close> is its \<^verbatim>\<open>null\<close>.\<close>

function buscarCoordenadas ::
  "provider \<Rightarrow> string \<Rightarrow> int \<Rightarrow> state \<Rightarrow> resultado option \<times> state" where
  "buscarCoordenadas P ender tentativa s =
     (case axiosGet P ender tentativa s of
        (Candidates (result # rest), s1) \<Rightarrow> (Some (toResultado result), incSuccess s1)
      | (Candidates [], s1) \<Rightarrow> (None, incErrors s1)
      | (Failure, s1) \<Rightarrow>
          if tentativa < state.maxRetries s1
          then buscarCoordenadas P ender (tentativa + 1) (sleep (state.retryDelay s1) s1)
          else (None, incErrors s1))"
  by pat_completeness auto
termination
  by (relation "measure (\<lambda>(P, ender, tentativa, s). nat (state.maxRetries s - tentativa))")
     (auto simp: axiosGet_def sleep_def)

declare buscarCoordenadas.simps [simp del]

text \<open>\<^verbatim>\<open>buscarCoordenadasComCache\<close>, lines 77 to 96.\<close>

definition buscarCoordenadasComCache ::
  "provider \<Rightarrow> string \<Rightarrow> state \<Rightarrow> resultado option \<times> state" where
  "buscarCoordenadasComCache P ender s =
     (let cacheKey = getCacheKey ender
      in case map_of (memoryCache s) cacheKey of
           Some v \<Rightarrow> (Some v, incCached s)
         | None \<Rightarrow>
             (case buscarCoordenadas P ender 1 s of
                (Some r, s1) \<Rightarrow>
                  (Some r, if state.cacheEnabled s1
                           then s1\<lparr>memoryCache := AList.update cacheKey r (memoryCache s1)\<rparr>
                           else s1)
              | (None, s1) \<Rightarrow> (None, s1)))"

text \<open>\<^verbatim>\<open>saveProgress\<close> and \<^verbatim>\<open>loadProgress\<close>, lines 157 to 182.\<close>

definition saveProgress :: "nat list \<Rightarrow> nat \<Rightarrow> state \<Rightarrow> state" where
  "saveProgress ids batch s =
     (if diskWritable s
      then s\<lparr>progressFile := Some \<lparr>processedIds = ids, currentBatch = batch,
                                     timestamp = clock s, progress.stats = state.stats s\<rparr>\<rparr>
      else s)"

definition loadProgress :: "state \<Rightarrow> progress option" where
  "loadProgress s = progressFile s"

text \<open>\<^verbatim>\<open>Set.prototype.add\<close> and \<^verbatim>\<open>new Set(array)\<close>.\<close>

definition setAdd :: "nat \<Rightarrow> nat list \<Rightarrow> nat list" where
  "setAdd x ids = (if x \<in> set ids then ids else ids @ [x])"

definition newSet :: "nat list \<Rightarrow> nat list" where
  "newSet xs = fold setAdd xs []"


section \<open>The batch pipeline\<close>

text \<open>
  The records are objects that the pipeline mutates in place: \<open>cs\<close> holds them in the
  order of the array \<^verbatim>\<open>clientes\<close>, and the pending records and the batches are lists of
  positions in \<open>cs\<close>. The callback \<^verbatim>\<open>onProgress\<close> is the caller's code: the model records
  its argument in the trace when a callback is given (\<open>onProgress\<close> is true).
\<close>

text \<open>The body of the inner loop, lines 234 to 276, for the record at position \<open>i\<close>.\<close>

definition atualizaCliente :: "nat \<Rightarrow> resultado option \<Rightarrow> cliente \<Rightarrow> cliente" where
  "atualizaCliente agora coords c =
     (case coords of
        Some r \<Rightarrow>
          c\<lparr>cliente.latitude := resultado.latitude r,
            cliente.longitude := resultado.longitude r,
            cliente.endereco_formatado := Some (resultado.endereco_formatado r),
            cliente.confianca := Some (resultado.confianca r),
            geocoded := True,
            data_geocodificacao := Some agora,
            cliente.cached := resultado.cached r\<rparr>
      | None \<Rightarrow> c\<lparr>geocoded := False, data_geocodificacao := Some agora\<rparr>)"

definition callOnProgress ::
  "bool \<Rightarrow> cliente \<Rightarrow> resultado option \<Rightarrow> nat \<Rightarrow> nat \<Rightarrow> state \<Rightarrow> state" where
  "callOnProgress onProgress c coords batchIndex totalBatches s =
     (if onProgress
      then s\<lparr>trace := trace s @
             [Progress \<lparr>processados = processed (state.stats s),
                        progresso.total = stats.total (state.stats s),
                        atual = nome c,
                        status = (coords \<noteq> None),
                        coordenadas = coords,
                        lote = batchIndex + 1,
                        totalLotes = totalBatches,
                        progresso.stats = state.stats s\<rparr>]\<rparr>
      else s)"

definition processarCliente ::
  "provider \<Rightarrow> bool \<Rightarrow> nat \<Rightarrow> nat \<Rightarrow> nat \<Rightarrow>
   cliente list \<times> nat list \<times> state \<Rightarrow> cliente list \<times> nat list \<times> state" where
  "processarCliente P onProgress batchIndex totalBatches i x =
     (case x of (cs, ids, s) \<Rightarrow>
        if ident (cs ! i) \<in> set ids then (cs, ids, s)
        else case buscarCoordenadasComCache P (endereco (cs ! i)) s of
          (coords, s1) \<Rightarrow>
            (cs[i := atualizaCliente (clock s1) coords (cs ! i)],
             setAdd (ident (cs ! i)) ids,
             sleep (state.rateLimitDelay s1)
               (callOnProgress onProgress (cs ! i) coords batchIndex totalBatches
                  (incProcessed s1))))"

fun processarLote ::
  "provider \<Rightarrow> bool \<Rightarrow> nat \<Rightarrow> nat \<Rightarrow> nat list \<Rightarrow>
   cliente list \<times> nat list \<times> state \<Rightarrow> cliente list \<times> nat list \<times> state" where
  "processarLote P onProgress batchIndex totalBatches [] x = x"
| "processarLote P onProgress batchIndex totalBatches (i # rest) x =
     processarLote P onProgress batchIndex totalBatches rest
       (processarCliente P onProgress batchIndex totalBatches i x)"

text \<open>\<^verbatim>\<open>xs.slice(start, finish)\<close> for indices that are not negative.\<close>

definition slice :: "'a list \<Rightarrow> nat \<Rightarrow> nat \<Rightarrow> 'a list" where
  "slice xs start finish = take (finish - start) (drop start xs)"

text \<open>The body of the outer loop, lines 227 to 290, for the batch \<open>batchIndex\<close>.\<close>

definition processarBatch ::
  "provider \<Rightarrow> bool \<Rightarrow> nat list \<Rightarrow> nat \<Rightarrow> nat \<Rightarrow>
   cliente list \<times> nat list \<times> state \<Rightarrow> cliente list \<times> nat list \<times> state" where
  "processarBatch P onProgress pendentes totalBatches batchIndex x =
     (case x of (cs, ids, s) \<Rightarrow>
        case processarLote P onProgress batchIndex totalBatches
               (slice pendentes (batchIndex * state.batchSize s)
                  (min (batchIndex * state.batchSize s + state.batchSize s) (length pendentes)))
               (cs, ids, s) of
          (cs1, ids1, s1) \<Rightarrow>
            (cs1, ids1,
             (if batchIndex + 1 < totalBatches then sleep 2000 else (\<lambda>s. s))
               (saveCache (saveProgress ids1 (batchIndex + 1) s1))))"

text \<open>The outer loop, line 226, from \<open>batchIndex\<close> on.\<close>

function batchLoop ::
  "provider \<Rightarrow> bool \<Rightarrow> nat list \<Rightarrow> nat \<Rightarrow> nat \<Rightarrow>
   cliente list \<times> nat list \<times> state \<Rightarrow> cliente list \<times> nat list \<times> state" where
  "batchLoop P onProgress pendentes totalBatches batchIndex x =
     (if batchIndex < totalBatches
      then batchLoop P onProgress pendentes totalBatches (batchIndex + 1)
             (processarBatch P onProgress pendentes totalBatches batchIndex x)
      else x)"
  by pat_completeness auto
termination
  by (relation "measure (\<lambda>(P, onProgress, pendentes, totalBatches, batchIndex, x).
                  totalBatches - batchIndex)") auto

declare batchLoop.simps [simp del]

text \<open>
  The same loop in a process that is killed at a batch boundary, after \<open>k\<close> batches of this
  run: the loop runs \<open>k\<close> rounds at most and nothing after it is executed.
\<close>

fun batchLoopKilled ::
  "nat \<Rightarrow> provider \<Rightarrow> bool \<Rightarrow> nat list \<Rightarrow> nat \<Rightarrow> nat \<Rightarrow>
   cliente list \<times> nat list \<times> state \<Rightarrow> cliente list \<times> nat list \<times> state" where
  "batchLoopKilled 0 P onProgress pendentes totalBatches batchIndex x = x"
| "batchLoopKilled (Suc k) P onProgress pendentes totalBatches batchIndex x =
     (if batchIndex < totalBatches
      then batchLoopKilled k P onProgress pendentes totalBatches (batchIndex + 1)
             (processarBatch P onProgress pendentes totalBatches batchIndex x)
      else x)"

text \<open>Lines 188 to 213: the statistics are reset, the cache and the progress are loaded.\<close>

definition resetStats :: "nat \<Rightarrow> state \<Rightarrow> state" where
  "resetStats n s =
     s\<lparr>state.stats := (state.stats s)\<lparr>stats.total := n, processed := 0, success := 0,
                                         errors := 0, stats.cached := 0,
                                         startTime := Some (clock s)\<rparr>\<rparr>"

definition retomar :: "bool \<Rightarrow> state \<Rightarrow> nat list \<times> nat" where
  "retomar resumeFromProgress s =
     (if resumeFromProgress
      then case loadProgress s of
             Some p \<Rightarrow> (newSet (processedIds p), currentBatch p)
           | None \<Rightarrow> ([], 0)
      else ([], 0))"

text \<open>Lines 216 to 219: the positions of the pending records.\<close>

definition clientesPendentes :: "cliente list \<Rightarrow> nat list \<Rightarrow> nat list" where
  "clientesPendentes cs ids =
     filter (\<lambda>i. ident (cs ! i) \<notin> set ids \<and>
                 (\<not> geocoded (cs ! i) \<or> \<not> truthy (cliente.latitude (cs ! i))
                    \<or> \<not> truthy (cliente.longitude (cs ! i))))
       [0 ..< length cs]"

text \<open>\<^verbatim>\<open>Math.ceil(n / sz)\<close> for a positive \<open>sz\<close>.\<close>

definition ceilDiv :: "nat \<Rightarrow> nat \<Rightarrow> nat" where
  "ceilDiv n sz = (n + sz - 1) div sz"

text \<open>Lines 293 to 309.\<close>

definition finalizar :: "state \<Rightarrow> state" where
  "finalizar s =
     saveCache (s\<lparr>state.stats := (state.stats s)\<lparr>endTime := Some (clock s)\<rparr>\<rparr>)"

text \<open>
  \<^verbatim>\<open>processarClientesOtimizado\<close>, lines 187 to 310. With a batch size of zero and a
  pending record \<^verbatim>\<open>totalBatches\<close> is \<^verbatim>\<open>Infinity\<close> and the loop never ends: the result is
  \<open>None\<close>. (With no pending record it is \<^verbatim>\<open>NaN\<close> and the loop is not entered.)
\<close>

definition processarClientesOtimizado ::
  "provider \<Rightarrow> cliente list \<Rightarrow> bool \<Rightarrow> bool \<Rightarrow> state \<Rightarrow> (cliente list \<times> state) option" where
  "processarClientesOtimizado P clientes onProgress resumeFromProgress s =
     (let s1 = loadCache (resetStats (length clientes) s);
          (ids, startBatch) = retomar resumeFromProgress s1;
          pendentes = clientesPendentes clientes ids
      in if state.batchSize s1 = 0 \<and> pendentes \<noteq> [] then None
         else case batchLoop P onProgress pendentes
                     (ceilDiv (length pendentes) (state.batchSize s1)) startBatch
                     (clientes, ids, s1) of
                (cs, ids1, s2) \<Rightarrow> Some (cs, finalizar s2))"

text \<open>The same run in a process that is killed after \<open>k\<close> batches.\<close>

definition processarClientesKilled ::
  "nat \<Rightarrow> provider \<Rightarrow> cliente list \<Rightarrow> bool \<Rightarrow> bool \<Rightarrow> state \<Rightarrow> (cliente list \<times> state) option" where
  "processarClientesKilled k P clientes onProgress resumeFromProgress s =
     (let s1 = loadCache (resetStats (length clientes) s);
          (ids, startBatch) = retomar resumeFromProgress s1;
          pendentes = clientesPendentes clientes ids
      in if state.batchSize s1 = 0 \<and> pendentes \<noteq> [] then None
         else case batchLoopKilled k P onProgress pendentes
                     (ceilDiv (length pendentes) (state.batchSize s1)) startBatch
                     (clientes, ids, s1) of
                (cs, ids1, s2) \<Rightarrow> Some (cs, s2))"

section \<open>Rate adjustment\<close>

text \<open>
  \<^verbatim>\<open>ajustarRateLimit\<close>, lines 331 to 341. The error rate is a quotient of two counters and
  is compared with \<open>0.1\<close> and \<open>0.02\<close>; the model compares the exact quotient.
\<close>

definition taxaErro :: "state \<Rightarrow> real" where
  "taxaErro s =
     (if processed (state.stats s) > 0
      then real (errors (state.stats s)) / real (processed (state.stats s)) else 0)"

definition ajustarRateLimit :: "state \<Rightarrow> state" where
  "ajustarRateLimit s =
     (if taxaErro s > 0.1
      then s\<lparr>state.rateLimitDelay := min (state.rateLimitDelay s + 200) 3000\<rparr>
      else if taxaErro s < 0.02 \<and> state.rateLimitDelay s > 800
      then s\<lparr>state.rateLimitDelay := max (state.rateLimitDelay s - 100) 800\<rparr>
      else s)"

text \<open>
  A sequence of adjustments, each after the counters have moved to the next observed
  values.
\<close>

definition observe :: "stats \<Rightarrow> state \<Rightarrow> state" where
  "observe st s = ajustarRateLimit (s\<lparr>state.stats := st\<rparr>)"


section \<open>The report\<close>

text \<open>Decimal digits of a number, as the template strings and \<^verbatim>\<open>toFixed\<close> print them.\<close>

definition digitChar :: "nat \<Rightarrow> char" where
  "digitChar d = ''0123456789'' ! d"

function showNat :: "nat \<Rightarrow> string" where
  "showNat n =
     (if n < 10 then [digitChar n]
      else showNat (n div 10) @ [digitChar (n mod 10)])"
  by pat_completeness auto
termination
  by (relation "measure (\<lambda>n. n)") auto

declare showNat.simps [simp del]

definition showInt :: "int \<Rightarrow> string" where
  "showInt i = (if i < 0 then CHR ''-'' # showNat (nat (- i)) else showNat (nat i))"

text \<open>
  \<^verbatim>\<open>((geocodificados / total) * 100).toFixed(1)\<close> followed by the percent sign. The
  quotient of zero by zero is \<^verbatim>\<open>NaN\<close>. The model rounds the exact quotient to the nearest
  tenth, a tie upwards; the code rounds the floating-point product, which may fall on the
  other side of a tie (23 of 80 is \<^verbatim>\<open>28.7%\<close> there and \<^verbatim>\<open>28.8%\<close> here). No statement
  below depends on a tie.
\<close>

definition taxaSucessoStr :: "nat \<Rightarrow> nat \<Rightarrow> string" where
  "taxaSucessoStr g n =
     (if n = 0 then ''NaN%''
      else showNat ((2000 * g + n) div (2 * n) div 10) @ ''.'' @
           showNat ((2000 * g + n) div (2 * n) mod 10) @ ''%'')"

text \<open>
  \<^verbatim>\<open>Math.round((endTime - startTime) / 1000)\<close> seconds, or \<^verbatim>\<open>N/A\<close> when a time is
  missing.
\<close>

definition tempoProcessamentoStr :: "stats \<Rightarrow> string" where
  "tempoProcessamentoStr st =
     (case (endTime st, startTime st) of
        (Some e, Some b) \<Rightarrow> showInt ((int e - int b + 500) div 1000) @ '' segundos''
      | _ \<Rightarrow> ''N/A'')"

text \<open>
  The calendar day of a time in milliseconds. \<^verbatim>\<open>toDateString\<close> gives the day of the
  local time zone; the model takes the zone of universal time.
\<close>

definition toDateString :: "nat \<Rightarrow> nat" where
  "toDateString t = t div 86400000"

record resumo =
  total :: nat
  geocodificados :: nat
  naoGeocodificados :: nat
  taxaSucesso :: string
  cacheHits :: nat
  tempoProcessamento :: string

record detalhes =
  com_coordenadas :: "cliente list"
  sem_coordenadas :: "cliente list"
  com_cache :: "cliente list"
  processados_hoje :: "cliente list"

record relatorio =
  resumo :: resumo
  estatisticas :: stats
  detalhes :: detalhes

definition temCoordenadas :: "cliente \<Rightarrow> bool" where
  "temCoordenadas c \<longleftrightarrow> truthy (cliente.latitude c) \<and> truthy (cliente.longitude c)"

text \<open>\<^verbatim>\<open>gerarRelatorioDetalhado\<close>, lines 350 to 379.\<close>

definition gerarRelatorioDetalhado :: "cliente list \<Rightarrow> state \<Rightarrow> relatorio" where
  "gerarRelatorioDetalhado clientes s =
     \<lparr>resumo =
        \<lparr>resumo.total = length clientes,
         geocodificados = length (filter (\<lambda>c. geocoded c \<and> temCoordenadas c) clientes),
         naoGeocodificados =
           length clientes - length (filter (\<lambda>c. geocoded c \<and> temCoordenadas c) clientes),
         taxaSucesso =
           taxaSucessoStr (length (filter (\<lambda>c. geocoded c \<and> temCoordenadas c) clientes))
             (length clientes),
         cacheHits = length (filter cliente.cached clientes),
         tempoProcessamento = tempoProcessamentoStr (state.stats s)\<rparr>,
      estatisticas = state.stats s,
      detalhes =
        \<lparr>com_coordenadas = filter temCoordenadas clientes,
         sem_coordenadas = filter (\<lambda>c. \<not> temCoordenadas c) clientes,
         com_cache = filter cliente.cached clientes,
         processados_hoje =
           filter (\<lambda>c. case data_geocodificacao c of
                         None \<Rightarrow> False
                       | Some d \<Rightarrow> toDateString (clock s) = toDateString d) clientes\<rparr>\<rparr>"


section \<open>Concrete inputs\<close>

text \<open>An environment without files, at time zero, before the service is constructed.\<close>

definition ambiente :: state where
  "ambiente =
     \<lparr>state.rateLimitDelay = 0, state.batchSize = 0, state.maxRetries = 0,
      state.retryDelay = 0, state.cacheEnabled = False, memoryCache = [],
      state.stats = \<lparr>stats.total = 0, processed = 0, success = 0, errors = 0,
                       stats.cached = 0, startTime = None, endTime = None\<rparr>,
      cacheFile = None, progressFile = None, diskWritable = True, clock = 0,
      requests = 0, trace = []\<rparr>"

text \<open>No option given, and the options of the large-volume test of \<^verbatim>\<open>teste.js\<close>.\<close>

definition semOpcoes :: options where
  "semOpcoes =
     \<lparr>options.rateLimitDelay = None, options.batchSize = None, options.maxRetries = None,
      options.retryDelay = None, options.cacheEnabled = None\<rparr>"

definition opcoesTeste :: options where
  "opcoesTeste =
     \<lparr>options.rateLimitDelay = Some 500, options.batchSize = Some 50,
      options.maxRetries = Some 2, options.retryDelay = None,
      options.cacheEnabled = Some True\<rparr>"

text \<open>Counters with one error in two processed records, and with none in fifty.\<close>

definition muitosErros :: stats where
  "muitosErros =
     \<lparr>stats.total = 2, processed = 2, success = 1, errors = 1, stats.cached = 0,
      startTime = Some 0, endTime = None\<rparr>"

definition semErros :: stats where
  "semErros =
     \<lparr>stats.total = 50, processed = 50, success = 50, errors = 0, stats.cached = 0,
      startTime = Some 0, endTime = None\<rparr>"

text \<open>A provider that is out of reach.\<close>

definition foraDoAr :: provider where
  "foraDoAr n q = Failure"

text \<open>A provider whose first answer is lost and that knows no address afterwards.\<close>

definition umaFalha :: provider where
  "umaFalha n q = (if n = 0 then Failure else Candidates [])"

text \<open>
  A record as the store holds it before any run, and a provider that resolves every
  address.
\<close>

definition novoCliente :: "nat \<Rightarrow> string \<Rightarrow> cliente" where
  "novoCliente i ender =
     \<lparr>ident = i, nome = ''Cliente'', endereco = ender, cliente.latitude = None,
      cliente.longitude = None, cliente.endereco_formatado = None,
      cliente.confianca = None, geocoded = False, data_geocodificacao = None,
      cliente.cached = False\<rparr>"

definition resolveTudo :: provider where
  "resolveTudo n q =
     Candidates [\<lparr>lat = Some (- 23.5), lon = Some (- 46.6), display_name = q,
                  importance = Some 0.5\<rparr>]"

text \<open>The scenario of the specification: five records, the second and the fourth with
  variants of one address.\<close>

definition cincoClientes :: "cliente list" where
  "cincoClientes =
     [novoCliente 1 ''Rua A, 1'', novoCliente 2 ''Main St, City'', novoCliente 3 ''Rua B, 2'',
      novoCliente 4 ''main   st, city'', novoCliente 5 ''Rua C, 3'']"

text \<open>Two records with one address.\<close>

definition doisClientes :: "cliente list" where
  "doisClientes = [novoCliente 1 ''Rua A, 1'', novoCliente 2 ''Rua A, 1'']"

text \<open>Four records with different addresses, processed in batches of two.\<close>

definition quatroClientes :: "cliente list" where
  "quatroClientes =
     [novoCliente 1 ''Rua A, 1'', novoCliente 2 ''Rua B, 2'', novoCliente 3 ''Rua C, 3'',
      novoCliente 4 ''Rua D, 4'']"

definition lotesDeDois :: options where
  "lotesDeDois =
     \<lparr>options.rateLimitDelay = None, options.batchSize = Some 2, options.maxRetries = None,
      options.retryDelay = None, options.cacheEnabled = None\<rparr>"

text \<open>
  A run that is killed after \<open>k\<close> batches, followed by a run with resume enabled in a new
  process: a new service object, the files as the killed process left them, and the
  records as it left them.
\<close>

definition killAndResume ::
  "nat \<Rightarrow> provider \<Rightarrow> options \<Rightarrow> cliente list \<Rightarrow> state \<Rightarrow> (cliente list \<times> state) option" where
  "killAndResume k P opts clientes env =
     (case processarClientesKilled k P clientes False True (GeocodingServiceAdvanced opts env) of
        None \<Rightarrow> None
      | Some (cs, s) \<Rightarrow>
          processarClientesOtimizado P cs False True (GeocodingServiceAdvanced opts s))"

text \<open>A record processed at time zero.\<close>

definition clienteProcessado :: cliente where
  "clienteProcessado =
     \<lparr>ident = 1, nome = ''Cliente'', endereco = ''Rua A, 1'', cliente.latitude = Some (- 23.5),
      cliente.longitude = Some (- 46.6), cliente.endereco_formatado = Some ''Rua A, 1, Brasil'',
      cliente.confianca = Some 0.5, geocoded = True, data_geocodificacao = Some 0,
      cliente.cached = False\<rparr>"

text \<open>
  The records and the state that the run over \<open>quatroClientes\<close> leaves when it is killed
  after its first batch.
\<close>

definition clientesAposKill :: "cliente list" where
  "clientesAposKill =
     [\<lparr>ident = 1, nome = ''Cliente'', endereco = ''Rua A, 1'',
       cliente.latitude = Some (- 23.5), cliente.longitude = Some (- 46.6),
       cliente.endereco_formatado = Some ''Rua A, 1, Brasil'',
       cliente.confianca = Some 0.5, geocoded = True,
       data_geocodificacao = Some 0, cliente.cached = False\<rparr>,
      \<lparr>ident = 2, nome = ''Cliente'', endereco = ''Rua B, 2'',
       cliente.latitude = Some (- 23.5), cliente.longitude = Some (- 46.6),
       cliente.endereco_formatado = Some ''Rua B, 2, Brasil'',
       cliente.confianca = Some 0.5, geocoded = True,
       data_geocodificacao = Some 1000, cliente.cached = False\<rparr>,
      novoCliente 3 ''Rua C, 3'', novoCliente 4 ''Rua D, 4'']"

definition cacheAposKill :: "(string \<times> resultado) list" where
  "cacheAposKill =
     [(''rua a, 1'',
       \<lparr>resultado.latitude = Some (- 23.5), resultado.longitude = Some (- 46.6),
        resultado.endereco_formatado = ''Rua A, 1, Brasil'', resultado.confianca = 0.5,
        resultado.cached = False\<rparr>),
      (''rua b, 2'',
       \<lparr>resultado.latitude = Some (- 23.5), resultado.longitude = Some (- 46.6),
        resultado.endereco_formatado = ''Rua B, 2, Brasil'', resultado.confianca = 0.5,
        resultado.cached = False\<rparr>)]"

definition estadoAposKill :: state where
  "estadoAposKill =
     \<lparr>state.rateLimitDelay = 1000, state.batchSize = 2, state.maxRetries = 3,
      state.retryDelay = 5000, state.cacheEnabled = True,
      memoryCache = cacheAposKill,
      state.stats =
        \<lparr>stats.total = 4, processed = 2, success = 2, errors = 0, stats.cached = 0,
         startTime = Some 0, endTime = None\<rparr>,
      cacheFile = Some cacheAposKill,
      progressFile =
        Some \<lparr>processedIds = [1, 2], currentBatch = 1, timestamp = 2000,
              progress.stats =
                \<lparr>stats.total = 4, processed = 2, success = 2, errors = 0,
                 stats.cached = 0, startTime = Some 0, endTime = None\<rparr>\<rparr>,
      diskWritable = True, clock = 4000, requests = 2,
      trace = [Request ''Rua A, 1'' 1, Sleep 1000, Request ''Rua B, 2'' 1, Sleep 1000,
               Sleep 2000]\<rparr>"


section \<open>Observations of a run\<close>

text \<open>The statistics that the progress callbacks of a trace have seen, in order.\<close>

fun snapshots :: "event list \<Rightarrow> stats list" where
  "snapshots [] = []"
| "snapshots (Progress p # evs) = progresso.stats p # snapshots evs"
| "snapshots (Request q n # evs) = snapshots evs"
| "snapshots (Sleep ms # evs) = snapshots evs"

text \<open>
  The counters move from \<open>a\<close> to \<open>b\<close> by one processed record: \<open>processed\<close> and exactly one
  of \<open>success\<close>, \<open>errors\<close> and \<open>cached\<close> grow by one, nothing else changes.
\<close>

definition umRegistro :: "stats \<Rightarrow> stats \<Rightarrow> bool" where
  "umRegistro a b \<longleftrightarrow>
     stats.total b = stats.total a \<and> processed b = processed a + 1 \<and>
     startTime b = startTime a \<and> endTime b = endTime a \<and>
     ((success b = success a + 1 \<and> errors b = errors a \<and> stats.cached b = stats.cached a) \<or>
      (success b = success a \<and> errors b = errors a + 1 \<and> stats.cached b = stats.cached a) \<or>
      (success b = success a \<and> errors b = errors a \<and> stats.cached b = stats.cached a + 1))"

text \<open>No counter of \<open>b\<close> is below the one of \<open>a\<close>.\<close>

definition naoDecresce :: "stats \<Rightarrow> stats \<Rightarrow> bool" where
  "naoDecresce a b \<longleftrightarrow>
     stats.total a \<le> stats.total b \<and> processed a \<le> processed b \<and>
     success a \<le> success b \<and> errors a \<le> errors b \<and> stats.cached a \<le> stats.cached b"

text \<open>
  From \<open>s\<close> to \<open>s'\<close> the trace has grown, and the statistics have moved record by record
  through \<open>sts\<close>, which are the statistics that the callback has seen if there is one.
\<close>

definition evolui :: "bool \<Rightarrow> state \<Rightarrow> state \<Rightarrow> bool" where
  "evolui onProgress s s' \<longleftrightarrow>
     (\<exists>evs sts. trace s' = trace s @ evs \<and>
        (if onProgress then snapshots evs = sts else snapshots evs = []) \<and>
        successively umRegistro (state.stats s # sts) \<and>
        state.stats s' = last (state.stats s # sts))"

text \<open>
  From \<open>s\<close> to \<open>s'\<close> the memory cache has kept every entry, and every new entry is a
  candidate that the provider has returned for an address with this key.
\<close>

definition resolvido :: "provider \<Rightarrow> string \<Rightarrow> resultado \<Rightarrow> bool" where
  "resolvido P k v \<longleftrightarrow>
     (\<exists>n ender c rest. P n (ender @ '', Brasil'') = Candidates (c # rest) \<and>
        v = toResultado c \<and> k = getCacheKey ender)"

definition cacheCresce :: "provider \<Rightarrow> state \<Rightarrow> state \<Rightarrow> bool" where
  "cacheCresce P s s' \<longleftrightarrow>
     (\<forall>k v. map_of (memoryCache s) k = Some v \<longrightarrow> map_of (memoryCache s') k = Some v) \<and>
     (\<forall>k v. map_of (memoryCache s') k = Some v \<longrightarrow>
        map_of (memoryCache s) k = Some v \<or> resolvido P k v)"

text \<open>No entry of the cache file contradicts an entry of the memory cache.\<close>

definition cacheFileAgrees :: "state \<Rightarrow> bool" where
  "cacheFileAgrees s \<longleftrightarrow>
     (\<forall>file k v v'. cacheFile s = Some file \<and> (k, v') \<in> set file \<and>
        map_of (memoryCache s) k = Some v \<longrightarrow> v' = v)"

text \<open>
  The invariant of the cache between runs: the keys of the memory cache are distinct, and
  so are the keys of the cache file (it is a JSON object), which does not contradict the
  memory cache. During a run with the cache enabled the file is, once loaded, a part of
  the memory cache.
\<close>

definition cacheInv :: "state \<Rightarrow> bool" where
  "cacheInv s \<longleftrightarrow>
     distinct (map fst (memoryCache s)) \<and>
     (\<forall>file. cacheFile s = Some file \<longrightarrow> distinct (map fst file)) \<and>
     cacheFileAgrees s"

definition cacheInvRun :: "state \<Rightarrow> bool" where
  "cacheInvRun s \<longleftrightarrow>
     distinct (map fst (memoryCache s)) \<and>
     (\<forall>file. cacheFile s = Some file \<longrightarrow> distinct (map fst file)) \<and>
     (if state.cacheEnabled s
      then \<forall>file k v. cacheFile s = Some file \<and> (k, v) \<in> set file \<longrightarrow>
             map_of (memoryCache s) k = Some v
      else cacheFileAgrees s)"

section \<open>Properties of the cache key\<close>

lemma isWhiteSpace_toLowerCaseChar [simp]: "isWhiteSpace (toLowerCaseChar c) = isWhiteSpace c"
  by (auto simp: isWhiteSpace_def toLowerCaseChar_def isUpperCase_def Let_def)

lemma not_isUpperCase_toLowerCaseChar [simp]: "\<not> isUpperCase (toLowerCaseChar c)"
  by (auto simp: toLowerCaseChar_def isUpperCase_def Let_def)

lemma toLowerCaseChar_idem [simp]: "toLowerCaseChar (toLowerCaseChar c) = toLowerCaseChar c"
  using not_isUpperCase_toLowerCaseChar [of c] by (simp add: toLowerCaseChar_def [of "toLowerCaseChar c"])


lemma not_isWhiteSpace_isUpperCase: "isUpperCase c \<Longrightarrow> \<not> isWhiteSpace c"
  by (auto simp: isWhiteSpace_def isUpperCase_def Let_def)


lemma toLowerCase_Cons [simp]: "toLowerCase (c # cs) = toLowerCaseChar c # toLowerCase cs"
  by (simp add: toLowerCase_def)

lemma toLowerCase_Nil [simp]: "toLowerCase [] = []"
  by (simp add: toLowerCase_def)












































section \<open>Bounds of the rate adjustment\<close>

lemma ajustarRateLimit_keeps:
  "800 \<le> state.rateLimitDelay s \<Longrightarrow> state.rateLimitDelay s \<le> 3000 \<Longrightarrow>
   800 \<le> state.rateLimitDelay (ajustarRateLimit s) \<and> state.rateLimitDelay (ajustarRateLimit s) \<le> 3000"
  by (simp add: ajustarRateLimit_def)

lemma observe_keeps:
  "800 \<le> state.rateLimitDelay s \<Longrightarrow> state.rateLimitDelay s \<le> 3000 \<Longrightarrow>
   800 \<le> state.rateLimitDelay (observe st s) \<and> state.rateLimitDelay (observe st s) \<le> 3000"
  unfolding observe_def by (rule ajustarRateLimit_keeps) simp_all

text \<open>
  Claim C5, as amended. From a delay within 800 and 3000 milliseconds, as the default of 1000
  is, no sequence of adjustments, whatever the observed counters are, takes the delay out of
  this interval.
\<close>

theorem rateLimitDelay_stays_in_bounds:
  "800 \<le> state.rateLimitDelay s \<and> state.rateLimitDelay s \<le> 3000 \<Longrightarrow>
   800 \<le> state.rateLimitDelay (fold observe sts s) \<and> state.rateLimitDelay (fold observe sts s) \<le> 3000"
proof (induction sts arbitrary: s)
  case Nil
  then show ?case by simp
next
  case (Cons st sts)
  have "800 \<le> state.rateLimitDelay (observe st s) \<and> state.rateLimitDelay (observe st s) \<le> 3000"
    using Cons.prems observe_keeps by blast
  then show ?case using Cons.IH [of "observe st s"] by simp
qed

theorem rateLimitDelay_stays_in_bounds_witness:
  "800 \<le> state.rateLimitDelay (GeocodingServiceAdvanced semOpcoes ambiente)
   \<and> state.rateLimitDelay (GeocodingServiceAdvanced semOpcoes ambiente) \<le> 3000
   \<and> state.rateLimitDelay
        (fold observe [muitosErros, semErros, semErros, semErros, semErros]
           (GeocodingServiceAdvanced semOpcoes ambiente)) = 800"
proof -
  have d: "state.rateLimitDelay (GeocodingServiceAdvanced semOpcoes ambiente) = 1000"
    by (simp add: GeocodingServiceAdvanced_def semOpcoes_def orElse_def)
  have e: "state.rateLimitDelay
        (fold observe [muitosErros, semErros, semErros, semErros, semErros]
           (GeocodingServiceAdvanced semOpcoes ambiente)) = 800"
    by (simp add: GeocodingServiceAdvanced_def semOpcoes_def orElse_def observe_def
        ajustarRateLimit_def taxaErro_def muitosErros_def semErros_def)
  from rateLimitDelay_stays_in_bounds
         [of "GeocodingServiceAdvanced semOpcoes ambiente"
             "[muitosErros, semErros, semErros, semErros, semErros]"] d e
  show ?thesis by simp
qed

text \<open>
  The claim as stated fails: the constructor accepts any initial delay. With the 500
  milliseconds of the large-volume test the delay starts below 800, is still below after an
  adjustment upwards, and is not raised by an adjustment at a low error rate.
\<close>

theorem rateLimitDelay_below_bounds:
  "state.rateLimitDelay (GeocodingServiceAdvanced opcoesTeste ambiente) = 500
   \<and> state.rateLimitDelay (fold observe [muitosErros] (GeocodingServiceAdvanced opcoesTeste ambiente)) = 700
   \<and> state.rateLimitDelay (fold observe [semErros] (GeocodingServiceAdvanced opcoesTeste ambiente)) = 500"
  by (simp add: GeocodingServiceAdvanced_def opcoesTeste_def orElse_def observe_def
        ajustarRateLimit_def taxaErro_def muitosErros_def semErros_def)

section \<open>Retries of the lookup\<close>

text \<open>
  As long as the requests fail and attempts are left, the lookup sends a request, sleeps
  \<open>retryDelay\<close> and calls itself with the next attempt number.
\<close>

lemma buscarCoordenadas_retry_prefix:
  "\<forall>n<j. P (requests s + n) (ender @ '', Brasil'') = Failure \<Longrightarrow>
   tentativa + int j \<le> state.maxRetries s \<Longrightarrow>
   buscarCoordenadas P ender tentativa s =
     buscarCoordenadas P ender (tentativa + int j)
       (s\<lparr>clock := clock s + j * nat (state.retryDelay s),
          requests := requests s + j,
          trace := trace s @
            concat (map (\<lambda>k. [Request ender k, Sleep (state.retryDelay s)])
                      [tentativa .. tentativa + int j - 1])\<rparr>)"
proof (induction j arbitrary: tentativa s)
  case 0
  then show ?case by simp
next
  case (Suc j)
  let ?s1 = "s\<lparr>requests := requests s + 1, trace := trace s @ [Request ender tentativa]\<rparr>"
  let ?s2 = "sleep (state.retryDelay s) ?s1"
  have f0: "P (requests s) (ender @ '', Brasil'') = Failure"
    using Suc.prems(1) by (metis add.right_neutral zero_less_Suc)
  have lt: "tentativa < state.maxRetries s" using Suc.prems(2) by simp
  have step: "buscarCoordenadas P ender tentativa s = buscarCoordenadas P ender (tentativa + 1) ?s2"
    using f0 lt by (subst buscarCoordenadas.simps) (simp add: axiosGet_def)
  have fails: "\<forall>n<j. P (requests ?s2 + n) (ender @ '', Brasil'') = Failure"
  proof (intro allI impI)
    fix n assume "n < j"
    then have "Suc n < Suc j" by simp
    then have "P (requests s + Suc n) (ender @ '', Brasil'') = Failure"
      using Suc.prems(1) by blast
    then show "P (requests ?s2 + n) (ender @ '', Brasil'') = Failure"
      by (simp add: sleep_def)
  qed
  have le: "(tentativa + 1) + int j \<le> state.maxRetries ?s2"
    using Suc.prems(2) by (simp add: sleep_def)
  have up: "[tentativa .. tentativa + int (Suc j) - 1] = tentativa # [tentativa + 1 .. tentativa + 1 + int j - 1]"
    by (subst upto_rec1) simp_all
  show ?case
    unfolding step Suc.IH [OF fails le] up
    by (simp add: sleep_def algebra_simps)
qed






text \<open>
  Claim C7. When a request of the lookup is answered with no candidate, after \<open>j\<close> failed
  and retried requests (none, for the first request), the lookup returns \<^verbatim>\<open>null\<close> at once:
  this request is its last, no sleep follows it, and \<open>errors\<close> is one more than before the
  lookup; the other counters, the cache and the configuration are as before.
\<close>

theorem buscarCoordenadas_no_candidates:
  assumes "\<forall>n<j. P (requests s + n) (ender @ '', Brasil'') = Failure"
    and "P (requests s + j) (ender @ '', Brasil'') = Candidates []"
    and "j = 0 \<or> int j < state.maxRetries s"
  shows "buscarCoordenadas P ender 1 s =
     (None,
      s\<lparr>state.stats := (state.stats s)\<lparr>errors := errors (state.stats s) + 1\<rparr>,
        clock := clock s + j * nat (state.retryDelay s),
        requests := requests s + j + 1,
        trace := trace s @
          concat (map (\<lambda>k. [Request ender k, Sleep (state.retryDelay s)]) [1 .. int j]) @
          [Request ender (int j + 1)]\<rparr>)"
proof -
  let ?s' = "s\<lparr>clock := clock s + j * nat (state.retryDelay s),
          requests := requests s + j,
          trace := trace s @
            concat (map (\<lambda>k. [Request ender k, Sleep (state.retryDelay s)])
                      [1 .. 1 + int j - 1])\<rparr>"
  have "buscarCoordenadas P ender 1 s = buscarCoordenadas P ender (1 + int j) ?s'"
  proof (cases "j = 0")
    case True
    then show ?thesis by simp
  next
    case False
    then have "1 + int j \<le> state.maxRetries s" using assms(3) by simp
    then show ?thesis using assms(1) by (intro buscarCoordenadas_retry_prefix) simp_all
  qed
  also have "\<dots> = (None, incErrors (?s'\<lparr>requests := requests ?s' + 1,
                         trace := trace ?s' @ [Request ender (1 + int j)]\<rparr>))"
    using assms(2) by (subst buscarCoordenadas.simps) (simp add: axiosGet_def)
  also have "\<dots> = (None,
      s\<lparr>state.stats := (state.stats s)\<lparr>errors := errors (state.stats s) + 1\<rparr>,
        clock := clock s + j * nat (state.retryDelay s),
        requests := requests s + j + 1,
        trace := trace s @
          concat (map (\<lambda>k. [Request ender k, Sleep (state.retryDelay s)]) [1 .. int j]) @
          [Request ender (int j + 1)]\<rparr>)"
    by (simp add: add.commute incErrors_def)
  finally show ?thesis .
qed

theorem buscarCoordenadas_no_candidates_witness:
  "umaFalha (requests (GeocodingServiceAdvanced semOpcoes ambiente))
              (''Rua A, 1'' @ '', Brasil'') = Failure
   \<and> umaFalha (requests (GeocodingServiceAdvanced semOpcoes ambiente) + 1)
              (''Rua A, 1'' @ '', Brasil'') = Candidates []
   \<and> int 1 < state.maxRetries (GeocodingServiceAdvanced semOpcoes ambiente)
   \<and> errors (state.stats (GeocodingServiceAdvanced semOpcoes ambiente)) = 0
   \<and> buscarCoordenadas umaFalha ''Rua A, 1'' 1 (GeocodingServiceAdvanced semOpcoes ambiente) =
       (None,
        (GeocodingServiceAdvanced semOpcoes ambiente)
          \<lparr>state.stats := \<lparr>stats.total = 0, processed = 0, success = 0, errors = 1,
                            stats.cached = 0, startTime = None, endTime = None\<rparr>,
           clock := 5000, requests := 2,
           trace := [Request ''Rua A, 1'' 1, Sleep 5000, Request ''Rua A, 1'' 2]\<rparr>)"
proof -
  let ?s = "GeocodingServiceAdvanced semOpcoes ambiente"
  have r: "requests ?s = 0"
    by (simp add: GeocodingServiceAdvanced_def ambiente_def)
  have f: "\<forall>n<1. umaFalha (requests ?s + n) (''Rua A, 1'' @ '', Brasil'') = Failure"
    by (simp add: umaFalha_def r)
  have e: "umaFalha (requests ?s + 1) (''Rua A, 1'' @ '', Brasil'') = Candidates []"
    by (simp add: umaFalha_def r)
  have m: "(1::nat) = 0 \<or> int 1 < state.maxRetries ?s"
    by (simp add: GeocodingServiceAdvanced_def semOpcoes_def orElse_def)
  from buscarCoordenadas_no_candidates
         [where P = umaFalha and ender = "''Rua A, 1''" and s = ?s and j = 1] f e m
  show ?thesis
    by (simp add: GeocodingServiceAdvanced_def semOpcoes_def orElse_def ambiente_def upto.simps
          numeral_2_eq_2)
qed

section \<open>The pipeline on concrete record sets\<close>

text \<open>The definitions that the simplifier unfolds to run the pipeline on a concrete input.\<close>

lemmas run_defs =
  processarClientesOtimizado_def processarClientesKilled_def killAndResume_def
  GeocodingServiceAdvanced_def semOpcoes_def lotesDeDois_def ambiente_def novoCliente_def
  resolveTudo_def orElse_def resetStats_def loadCache_def retomar_def loadProgress_def
  clientesPendentes_def truthy_def ceilDiv_def processarBatch_def slice_def
  processarCliente_def buscarCoordenadasComCache_def axiosGet_def toResultado_def
  incSuccess_def incErrors_def incCached_def incProcessed_def atualizaCliente_def
  callOnProgress_def setAdd_def sleep_def saveProgress_def saveCache_def finalizar_def
  newSet_def gerarRelatorioDetalhado_def temCoordenadas_def taxaSucessoStr_def digitChar_def
  upt_rec buscarCoordenadas.simps batchLoop.simps showNat.simps

lemma key_rua_a: "getCacheKey ''Rua A, 1'' = ''rua a, 1''" by code_simp
lemma key_rua_b: "getCacheKey ''Rua B, 2'' = ''rua b, 2''" by code_simp
lemma key_rua_c: "getCacheKey ''Rua C, 3'' = ''rua c, 3''" by code_simp
lemma key_rua_d: "getCacheKey ''Rua D, 4'' = ''rua d, 4''" by code_simp
lemma key_main_1: "getCacheKey ''Main St, City'' = ''main st, city''" by code_simp
lemma key_main_2: "getCacheKey ''main   st, city'' = ''main st, city''" by code_simp

lemmas keys = key_rua_a key_rua_b key_rua_c key_rua_d key_main_1 key_main_2

text \<open>
  Claim C2. In the scenario of five records, where the second and the fourth carry variants
  of one address and the provider resolves every address, a full run sends four requests
  and counts one cache hit in its statistics, and all five records are resolved. The report
  shows the success rate \<^verbatim>\<open>100.0%\<close>, but its \<^verbatim>\<open>cacheHits\<close> is zero, not one: the
  record served from the cache carries the \<^verbatim>\<open>cached: false\<close> of the stored result.
\<close>

theorem scenario_report_misses_cache_hit:
  "map_option
     (\<lambda>(cs, s). (map geocoded cs, requests s, stats.cached (state.stats s),
                 taxaSucesso (resumo (gerarRelatorioDetalhado cs s)),
                 cacheHits (resumo (gerarRelatorioDetalhado cs s))))
     (processarClientesOtimizado resolveTudo cincoClientes False True
        (GeocodingServiceAdvanced semOpcoes ambiente))
   = Some ([True, True, True, True, True], 4, 1, ''100.0%'', 0)"
  by (simp add: run_defs keys cincoClientes_def)

text \<open>
  Claim C3. Of two records with one address the second is served from the cache: one
  request is sent and the counter of cache hits is one. Its \<^verbatim>\<open>cached\<close> tag is false all
  the same, as the tag of the record that was looked up.
\<close>

theorem cache_hit_tagged_as_lookup:
  "map_option
     (\<lambda>(cs, s). (map geocoded cs, requests s, stats.cached (state.stats s),
                 map cliente.cached cs))
     (processarClientesOtimizado resolveTudo doisClientes False True
        (GeocodingServiceAdvanced semOpcoes ambiente))
   = Some ([True, True], 1, 1, [False, False])"
  by (simp add: run_defs keys doisClientes_def)

lemma killed_after_first_batch:
  "processarClientesKilled 1 resolveTudo quatroClientes False True
     (GeocodingServiceAdvanced lotesDeDois ambiente) = Some (clientesAposKill, estadoAposKill)"
  by (simp add: run_defs keys quatroClientes_def clientesAposKill_def estadoAposKill_def
        cacheAposKill_def)

lemma resumed_after_kill:
  "map_option (\<lambda>(cs, s). (map geocoded cs, requests s))
     (processarClientesOtimizado resolveTudo clientesAposKill False True
        (GeocodingServiceAdvanced lotesDeDois estadoAposKill))
   = Some ([True, True, False, False], 2)"
  by (simp add: run_defs keys clientesAposKill_def estadoAposKill_def cacheAposKill_def)

lemma uninterrupted_run:
  "map_option (\<lambda>(cs, s). (map geocoded cs, requests s))
     (processarClientesOtimizado resolveTudo quatroClientes False True
        (GeocodingServiceAdvanced lotesDeDois ambiente))
   = Some ([True, True, True, True], 4)"
  by (simp add: run_defs keys quatroClientes_def)

text \<open>
  Claim C1. Four records in batches of two: the uninterrupted run resolves all four. Killed
  after the first batch, the run leaves the ids 1 and 2 and the batch index 1 in the
  progress file. The resumed run filters these two records out and then starts at batch 1
  of the two records that are left, which is past their only batch: records 3 and 4 are
  never processed, and no request is sent for them.
\<close>

theorem resume_skips_pending_batch:
  "map_option (\<lambda>(cs, s). (map geocoded cs, requests s))
     (processarClientesOtimizado resolveTudo quatroClientes False True
        (GeocodingServiceAdvanced lotesDeDois ambiente))
   = Some ([True, True, True, True], 4)
   \<and> map_option (\<lambda>(cs, s). (map geocoded cs, map_option processedIds (progressFile s),
                              map_option currentBatch (progressFile s)))
     (processarClientesKilled 1 resolveTudo quatroClientes False True
        (GeocodingServiceAdvanced lotesDeDois ambiente))
   = Some ([True, True, False, False], Some [1, 2], Some 1)
   \<and> map_option (\<lambda>(cs, s). (map geocoded cs, requests s))
       (killAndResume 1 resolveTudo lotesDeDois quatroClientes ambiente)
   = Some ([True, True, False, False], 2)"
proof -
  have k: "map_option (\<lambda>(cs, s). (map geocoded cs, map_option processedIds (progressFile s),
                              map_option currentBatch (progressFile s)))
     (processarClientesKilled 1 resolveTudo quatroClientes False True
        (GeocodingServiceAdvanced lotesDeDois ambiente))
   = Some ([True, True, False, False], Some [1, 2], Some 1)"
    unfolding killed_after_first_batch
    by (simp add: clientesAposKill_def estadoAposKill_def novoCliente_def)
  have r: "map_option (\<lambda>(cs, s). (map geocoded cs, requests s))
       (killAndResume 1 resolveTudo lotesDeDois quatroClientes ambiente)
   = Some ([True, True, False, False], 2)"
    unfolding killAndResume_def killed_after_first_batch
    using resumed_after_kill by simp
  from uninterrupted_run k r show ?thesis by blast
qed

section \<open>What the report depends on\<close>

text \<open>
  Claim C6, as amended. The report is a function of the records, of the statistics of the
  service and of the current day: with equal statistics and on the same day two calls on
  the same records return the same report. The counts, the success rate, the number of cache
  hits and the three buckets by coordinates and by cache tag depend on the records alone.
\<close>

theorem gerarRelatorioDetalhado_depends_on:
  "(state.stats s1 = state.stats s2 \<and> toDateString (clock s1) = toDateString (clock s2) \<longrightarrow>
      gerarRelatorioDetalhado cs s1 = gerarRelatorioDetalhado cs s2)
   \<and> resumo.total (resumo (gerarRelatorioDetalhado cs s1)) =
       resumo.total (resumo (gerarRelatorioDetalhado cs s2))
   \<and> geocodificados (resumo (gerarRelatorioDetalhado cs s1)) =
       geocodificados (resumo (gerarRelatorioDetalhado cs s2))
   \<and> naoGeocodificados (resumo (gerarRelatorioDetalhado cs s1)) =
       naoGeocodificados (resumo (gerarRelatorioDetalhado cs s2))
   \<and> taxaSucesso (resumo (gerarRelatorioDetalhado cs s1)) =
       taxaSucesso (resumo (gerarRelatorioDetalhado cs s2))
   \<and> cacheHits (resumo (gerarRelatorioDetalhado cs s1)) =
       cacheHits (resumo (gerarRelatorioDetalhado cs s2))
   \<and> com_coordenadas (detalhes (gerarRelatorioDetalhado cs s1)) =
       com_coordenadas (detalhes (gerarRelatorioDetalhado cs s2))
   \<and> sem_coordenadas (detalhes (gerarRelatorioDetalhado cs s1)) =
       sem_coordenadas (detalhes (gerarRelatorioDetalhado cs s2))
   \<and> com_cache (detalhes (gerarRelatorioDetalhado cs s1)) =
       com_cache (detalhes (gerarRelatorioDetalhado cs s2))"
proof -
  have "gerarRelatorioDetalhado cs s1 = gerarRelatorioDetalhado cs s2"
    if "state.stats s1 = state.stats s2" and "toDateString (clock s1) = toDateString (clock s2)"
    unfolding gerarRelatorioDetalhado_def that by (rule refl)
  then show ?thesis by (simp add: gerarRelatorioDetalhado_def)
qed

theorem gerarRelatorioDetalhado_depends_on_witness:
  "state.stats (GeocodingServiceAdvanced semOpcoes ambiente) =
     state.stats (sleep 1000 (GeocodingServiceAdvanced semOpcoes ambiente))
   \<and> toDateString (clock (GeocodingServiceAdvanced semOpcoes ambiente)) =
       toDateString (clock (sleep 1000 (GeocodingServiceAdvanced semOpcoes ambiente)))
   \<and> GeocodingServiceAdvanced semOpcoes ambiente \<noteq>
       sleep 1000 (GeocodingServiceAdvanced semOpcoes ambiente)
   \<and> gerarRelatorioDetalhado [clienteProcessado] (GeocodingServiceAdvanced semOpcoes ambiente) =
       gerarRelatorioDetalhado [clienteProcessado]
         (sleep 1000 (GeocodingServiceAdvanced semOpcoes ambiente))"
proof -
  let ?s = "GeocodingServiceAdvanced semOpcoes ambiente"
  have st: "state.stats ?s = state.stats (sleep 1000 ?s)"
    by (simp add: sleep_def)
  have day: "toDateString (clock ?s) = toDateString (clock (sleep 1000 ?s))"
    by (simp add: sleep_def toDateString_def GeocodingServiceAdvanced_def ambiente_def)
  have ne: "?s \<noteq> sleep 1000 ?s"
  proof
    assume "?s = sleep 1000 ?s"
    then have "clock ?s = clock (sleep 1000 ?s)" by simp
    then show False by (simp add: sleep_def)
  qed
  from gerarRelatorioDetalhado_depends_on [of ?s "sleep 1000 ?s" "[clienteProcessado]"] st day ne
  show ?thesis by blast
qed

text \<open>
  The claim as stated fails: on one and the same record set the report changes with the
  statistics of the service (the field \<^verbatim>\<open>estatisticas\<close> and the processing time) and with
  the clock (the bucket of the records processed today).
\<close>

theorem gerarRelatorioDetalhado_reads_stats_and_clock:
  "gerarRelatorioDetalhado [clienteProcessado] (GeocodingServiceAdvanced semOpcoes ambiente) \<noteq>
     gerarRelatorioDetalhado [clienteProcessado]
       (incErrors (GeocodingServiceAdvanced semOpcoes ambiente))
   \<and> tempoProcessamento (resumo (gerarRelatorioDetalhado [clienteProcessado]
        (GeocodingServiceAdvanced semOpcoes ambiente))) \<noteq>
     tempoProcessamento (resumo (gerarRelatorioDetalhado [clienteProcessado]
        (finalizar (resetStats 1 (GeocodingServiceAdvanced semOpcoes ambiente)))))
   \<and> processados_hoje (detalhes (gerarRelatorioDetalhado [clienteProcessado]
        (GeocodingServiceAdvanced semOpcoes ambiente))) \<noteq>
     processados_hoje (detalhes (gerarRelatorioDetalhado [clienteProcessado]
        (sleep 86400000 (GeocodingServiceAdvanced semOpcoes ambiente))))"
proof -
  let ?s = "GeocodingServiceAdvanced semOpcoes ambiente"
  have a: "estatisticas (gerarRelatorioDetalhado [clienteProcessado] ?s) \<noteq>
           estatisticas (gerarRelatorioDetalhado [clienteProcessado] (incErrors ?s))"
    by (simp add: gerarRelatorioDetalhado_def incErrors_def GeocodingServiceAdvanced_def)
  have a': "gerarRelatorioDetalhado [clienteProcessado] ?s \<noteq>
     gerarRelatorioDetalhado [clienteProcessado] (incErrors ?s)"
    using a by auto
  have b: "tempoProcessamento (resumo (gerarRelatorioDetalhado [clienteProcessado] ?s)) \<noteq>
     tempoProcessamento (resumo (gerarRelatorioDetalhado [clienteProcessado]
        (finalizar (resetStats 1 ?s))))"
    by (simp add: gerarRelatorioDetalhado_def tempoProcessamentoStr_def finalizar_def
          resetStats_def saveCache_def GeocodingServiceAdvanced_def ambiente_def showInt_def
          digitChar_def showNat.simps)
  have c: "processados_hoje (detalhes (gerarRelatorioDetalhado [clienteProcessado] ?s)) \<noteq>
     processados_hoje (detalhes (gerarRelatorioDetalhado [clienteProcessado]
        (sleep 86400000 ?s)))"
    by (simp add: gerarRelatorioDetalhado_def sleep_def toDateString_def clienteProcessado_def
          GeocodingServiceAdvanced_def ambiente_def)
  from a' b c show ?thesis by blast
qed

section \<open>Statistics and cache along a run\<close>

lemma snapshots_append [simp]: "snapshots (xs @ ys) = snapshots xs @ snapshots ys"
  by (induction xs rule: snapshots.induct) simp_all

lemma buscarCoordenadas_effect:
  "buscarCoordenadas P ender tentativa s = (r, s') \<Longrightarrow>
     memoryCache s' = memoryCache s \<and>
     state.stats s' =
       (if r = None then (state.stats s)\<lparr>errors := errors (state.stats s) + 1\<rparr>
        else (state.stats s)\<lparr>success := success (state.stats s) + 1\<rparr>) \<and>
     (\<exists>evs. trace s' = trace s @ evs \<and> snapshots evs = []) \<and>
     (\<forall>v. r = Some v \<longrightarrow>
        (\<exists>n c rest. P n (ender @ '', Brasil'') = Candidates (c # rest) \<and> v = toResultado c))"
proof (induction P ender tentativa s arbitrary: r s' rule: buscarCoordenadas.induct)
  case (1 P ender tentativa s)
  let ?s1 = "s\<lparr>requests := requests s + 1, trace := trace s @ [Request ender tentativa]\<rparr>"
  have ax: "axiosGet P ender tentativa s = (P (requests s) (ender @ '', Brasil''), ?s1)"
    by (simp add: axiosGet_def)
  show ?case
  proof (cases "P (requests s) (ender @ '', Brasil'')")
    case (Candidates cands)
    show ?thesis
    proof (cases cands)
      case Nil
      then have "r = None" "s' = incErrors ?s1"
        using 1(2) Candidates ax by (simp_all add: buscarCoordenadas.simps [of P ender tentativa s])
      then show ?thesis by (simp add: incErrors_def)
    next
      case (Cons c rest)
      then have "r = Some (toResultado c)" "s' = incSuccess ?s1"
        using 1(2) Candidates ax by (simp_all add: buscarCoordenadas.simps [of P ender tentativa s])
      then show ?thesis using Candidates Cons by (auto simp: incSuccess_def)
    qed
  next
    case Failure
    show ?thesis
    proof (cases "tentativa < state.maxRetries ?s1")
      case True
      let ?s2 = "sleep (state.retryDelay ?s1) ?s1"
      have rec: "buscarCoordenadas P ender (tentativa + 1) ?s2 = (r, s')"
        using 1(2) Failure ax True
        by (simp add: buscarCoordenadas.simps [of P ender tentativa s])
      have ih: "memoryCache s' = memoryCache ?s2 \<and>
     state.stats s' =
       (if r = None then (state.stats ?s2)\<lparr>errors := errors (state.stats ?s2) + 1\<rparr>
        else (state.stats ?s2)\<lparr>success := success (state.stats ?s2) + 1\<rparr>) \<and>
     (\<exists>evs. trace s' = trace ?s2 @ evs \<and> snapshots evs = []) \<and>
     (\<forall>v. r = Some v \<longrightarrow>
        (\<exists>n c rest. P n (ender @ '', Brasil'') = Candidates (c # rest) \<and> v = toResultado c))"
        using 1(1) [OF ax [symmetric] Failure True rec] .
      then obtain evs where evs: "trace s' = trace ?s2 @ evs" "snapshots evs = []" by blast
      have "trace s' = trace s @ ([Request ender tentativa, Sleep (state.retryDelay s)] @ evs)"
        using evs(1) by (simp add: sleep_def)
      moreover have "snapshots ([Request ender tentativa, Sleep (state.retryDelay s)] @ evs) = []"
        using evs(2) by simp
      ultimately have tr: "\<exists>evs. trace s' = trace s @ evs \<and> snapshots evs = []" by blast
      show ?thesis using ih tr by (simp add: sleep_def)
    next
      case False
      then have "r = None" "s' = incErrors ?s1"
        using 1(2) Failure ax by (simp_all add: buscarCoordenadas.simps [of P ender tentativa s])
      then show ?thesis by (simp add: incErrors_def)
    qed
  qed
qed

lemma buscarCoordenadasComCache_effect:
  assumes "buscarCoordenadasComCache P ender s = (r, s')"
  shows "(state.stats s' = (state.stats s)\<lparr>stats.cached := stats.cached (state.stats s) + 1\<rparr> \<or>
          state.stats s' = (state.stats s)\<lparr>success := success (state.stats s) + 1\<rparr> \<or>
          state.stats s' = (state.stats s)\<lparr>errors := errors (state.stats s) + 1\<rparr>)"
    and "\<exists>evs. trace s' = trace s @ evs \<and> snapshots evs = []"
    and "cacheCresce P s s'"
    and "r = None \<Longrightarrow> memoryCache s' = memoryCache s"
proof -
  let ?k = "getCacheKey ender"
  show "(state.stats s' = (state.stats s)\<lparr>stats.cached := stats.cached (state.stats s) + 1\<rparr> \<or>
          state.stats s' = (state.stats s)\<lparr>success := success (state.stats s) + 1\<rparr> \<or>
          state.stats s' = (state.stats s)\<lparr>errors := errors (state.stats s) + 1\<rparr>)"
  proof (cases "map_of (memoryCache s) ?k")
    case (Some v)
    then have "s' = incCached s" using assms by (simp add: buscarCoordenadasComCache_def)
    then show ?thesis by (simp add: incCached_def)
  next
    case None
    obtain r1 s1 where b: "buscarCoordenadas P ender 1 s = (r1, s1)" by (cases "buscarCoordenadas P ender 1 s")
    have "state.stats s' = state.stats s1"
      using assms None b by (cases r1) (auto simp: buscarCoordenadasComCache_def)
    then show ?thesis using buscarCoordenadas_effect [OF b] by (cases "r1 = None") simp_all
  qed
  show "\<exists>evs. trace s' = trace s @ evs \<and> snapshots evs = []"
  proof (cases "map_of (memoryCache s) ?k")
    case (Some v)
    then have "s' = incCached s" using assms by (simp add: buscarCoordenadasComCache_def)
    then show ?thesis by (simp add: incCached_def)
  next
    case None
    obtain r1 s1 where b: "buscarCoordenadas P ender 1 s = (r1, s1)" by (cases "buscarCoordenadas P ender 1 s")
    have "trace s' = trace s1"
      using assms None b by (cases r1) (auto simp: buscarCoordenadasComCache_def)
    then show ?thesis using buscarCoordenadas_effect [OF b] by simp
  qed
  show "cacheCresce P s s'"
  proof (cases "map_of (memoryCache s) ?k")
    case (Some v)
    then have "s' = incCached s" using assms by (simp add: buscarCoordenadasComCache_def)
    then show ?thesis by (simp add: incCached_def cacheCresce_def)
  next
    case None
    obtain r1 s1 where b: "buscarCoordenadas P ender 1 s = (r1, s1)" by (cases "buscarCoordenadas P ender 1 s")
    have m1: "memoryCache s1 = memoryCache s" using buscarCoordenadas_effect [OF b] by simp
    show ?thesis
    proof (cases r1)
      case None
      then have "s' = s1" using assms \<open>map_of (memoryCache s) ?k = None\<close> b
        by (simp add: buscarCoordenadasComCache_def)
      then show ?thesis using m1 by (simp add: cacheCresce_def)
    next
      case (Some v)
      then have res: "resolvido P ?k v"
        using buscarCoordenadas_effect [OF b] unfolding resolvido_def by blast
      have "memoryCache s' = memoryCache s \<or> memoryCache s' = AList.update ?k v (memoryCache s)"
        using assms \<open>map_of (memoryCache s) ?k = None\<close> b Some m1
        by (auto simp: buscarCoordenadasComCache_def)
      then show ?thesis
      proof
        assume "memoryCache s' = memoryCache s"
        then show ?thesis by (simp add: cacheCresce_def)
      next
        assume "memoryCache s' = AList.update ?k v (memoryCache s)"
        then have "map_of (memoryCache s') = (map_of (memoryCache s))(?k \<mapsto> v)"
          by (simp add: update_conv')
        then show ?thesis using \<open>map_of (memoryCache s) ?k = None\<close> res
          by (auto simp: cacheCresce_def)
      qed
    qed
  qed
  show "memoryCache s' = memoryCache s" if "r = None"
  proof (cases "map_of (memoryCache s) ?k")
    case (Some v)
    then show ?thesis using assms that by (simp add: buscarCoordenadasComCache_def)
  next
    case None
    obtain r1 s1 where b: "buscarCoordenadas P ender 1 s = (r1, s1)" by (cases "buscarCoordenadas P ender 1 s")
    have m1: "memoryCache s1 = memoryCache s" using buscarCoordenadas_effect [OF b] by simp
    show ?thesis using assms that None b m1
      by (cases r1) (auto simp: buscarCoordenadasComCache_def)
  qed
qed

lemma evolui_refl: "evolui onp s s"
  unfolding evolui_def by (intro exI [of _ "[]"]) simp

lemma evolui_same:
  "state.stats s' = state.stats s \<Longrightarrow> trace s' = trace s @ evs \<Longrightarrow> snapshots evs = [] \<Longrightarrow>
   evolui onp s s'"
  unfolding evolui_def by (intro exI [of _ evs] exI [of _ "[]"]) simp

lemma successively_chain:
  assumes "successively R (a # xs)" and "successively R (last (a # xs) # ys)"
  shows "successively R (a # xs @ ys)"
proof -
  have "successively R ((a # xs) @ ys)"
    unfolding successively_append_iff using assms
    by (cases ys) (auto simp: successively_Cons)
  then show ?thesis by simp
qed

lemma evolui_trans:
  assumes "evolui onp a b" and "evolui onp b c"
  shows "evolui onp a c"
proof -
  obtain e1 t1 where 1: "trace b = trace a @ e1"
      "if onp then snapshots e1 = t1 else snapshots e1 = []"
      "successively umRegistro (state.stats a # t1)" "state.stats b = last (state.stats a # t1)"
    using assms(1) unfolding evolui_def by blast
  obtain e2 t2 where 2: "trace c = trace b @ e2"
      "if onp then snapshots e2 = t2 else snapshots e2 = []"
      "successively umRegistro (state.stats b # t2)" "state.stats c = last (state.stats b # t2)"
    using assms(2) unfolding evolui_def by blast
  have tr: "trace c = trace a @ (e1 @ e2)" using 1(1) 2(1) by simp
  have sn: "if onp then snapshots (e1 @ e2) = t1 @ t2 else snapshots (e1 @ e2) = []"
    using 1(2) 2(2) by (cases onp) simp_all
  have ch: "successively umRegistro (state.stats a # (t1 @ t2))"
    using successively_chain [OF 1(3)] 2(3) 1(4) by simp
  have la: "state.stats c = last (state.stats a # (t1 @ t2))"
    using 1(4) 2(4) by (cases t2) simp_all
  show ?thesis unfolding evolui_def using tr sn ch la by blast
qed

lemma cacheCresce_refl: "cacheCresce P s s"
  by (simp add: cacheCresce_def)

lemma cacheCresce_same: "memoryCache s' = memoryCache s \<Longrightarrow> cacheCresce P s s'"
  by (simp add: cacheCresce_def)

lemma cacheCresce_trans: "cacheCresce P a b \<Longrightarrow> cacheCresce P b c \<Longrightarrow> cacheCresce P a c"
  unfolding cacheCresce_def by blast

lemma processarCliente_cases:
  assumes "processarCliente P onp bi tb i (cs, ids, s) = (cs', ids', s')"
  obtains (skip) "s' = s"
  | (novo) coords s1 where "buscarCoordenadasComCache P (endereco (cs ! i)) s = (coords, s1)"
      and "s' = sleep (state.rateLimitDelay s1)
                  (callOnProgress onp (cs ! i) coords bi tb (incProcessed s1))"
proof (cases "ident (cs ! i) \<in> set ids")
  case True
  then have "s' = s" using assms by (simp add: processarCliente_def)
  then show ?thesis by (rule skip)
next
  case False
  obtain coords s1 where b: "buscarCoordenadasComCache P (endereco (cs ! i)) s = (coords, s1)"
    by (cases "buscarCoordenadasComCache P (endereco (cs ! i)) s")
  then have "s' = sleep (state.rateLimitDelay s1)
                  (callOnProgress onp (cs ! i) coords bi tb (incProcessed s1))"
    using assms False by (simp add: processarCliente_def)
  with b show ?thesis by (rule novo)
qed

lemma processarCliente_cacheCresce:
  assumes "processarCliente P onp bi tb i (cs, ids, s) = (cs', ids', s')"
  shows "cacheCresce P s s'"
  using assms
proof (cases rule: processarCliente_cases)
  case skip
  then show ?thesis by (simp add: cacheCresce_refl)
next
  case (novo coords s1)
  have "cacheCresce P s s1" using buscarCoordenadasComCache_effect(3) [OF novo(1)] .
  moreover have "cacheCresce P s1 s'"
    using novo(2) by (intro cacheCresce_same) (simp add: sleep_def callOnProgress_def incProcessed_def)
  ultimately show ?thesis by (rule cacheCresce_trans)
qed

lemma processarCliente_evolui:
  assumes "processarCliente P onp bi tb i (cs, ids, s) = (cs', ids', s')"
  shows "evolui onp s s'"
  using assms
proof (cases rule: processarCliente_cases)
  case skip
  then show ?thesis by (simp add: evolui_refl)
next
  case (novo coords s1)
  obtain e1 where e1: "trace s1 = trace s @ e1" "snapshots e1 = []"
    using buscarCoordenadasComCache_effect(2) [OF novo(1)] by blast
  have st: "state.stats s' = (state.stats s1)\<lparr>processed := processed (state.stats s1) + 1\<rparr>"
    using novo(2) by (simp add: sleep_def callOnProgress_def incProcessed_def)
  have um: "umRegistro (state.stats s) (state.stats s')"
    using buscarCoordenadasComCache_effect(1) [OF novo(1)] st
    by (auto simp: umRegistro_def)
  let ?evs = "e1 @ (if onp
      then [Progress \<lparr>processados = processed (state.stats s'),
                        progresso.total = stats.total (state.stats s'),
                        atual = nome (cs ! i),
                        status = (coords \<noteq> None),
                        coordenadas = coords,
                        lote = bi + 1,
                        totalLotes = tb,
                        progresso.stats = state.stats s'\<rparr>] else []) @ [Sleep (state.rateLimitDelay s1)]"
  have tr: "trace s' = trace s @ ?evs"
    using novo(2) e1(1) st by (simp add: sleep_def callOnProgress_def incProcessed_def)
  have sn: "if onp then snapshots ?evs = [state.stats s'] else snapshots ?evs = []"
    using e1(2) by simp
  show ?thesis unfolding evolui_def
    using tr sn um by (intro exI [of _ ?evs] exI [of _ "[state.stats s']"]) simp
qed

text \<open>
  A relation between states that is reflexive and transitive, and that every processed
  record, every sleep and every save respects, holds between the start and the end of
  a batch, of the batch loop and of the loop of a killed run.
\<close>

lemma processarLote_lift:
  assumes refl: "\<And>s. R s s"
    and trans: "\<And>a b c. R a b \<Longrightarrow> R b c \<Longrightarrow> R a c"
    and step: "\<And>bi tb i cs ids s cs' ids' s'.
        processarCliente P onp bi tb i (cs, ids, s) = (cs', ids', s') \<Longrightarrow> R s s'"
  shows "processarLote P onp bi tb is (cs, ids, s) = (cs', ids', s') \<Longrightarrow> R s s'"
proof (induction "is" arbitrary: cs ids s)
  case Nil
  then show ?case using refl by simp
next
  case (Cons i rest)
  obtain cs1 ids1 s1 where c: "processarCliente P onp bi tb i (cs, ids, s) = (cs1, ids1, s1)"
    by (cases "processarCliente P onp bi tb i (cs, ids, s)") auto
  have "R s s1" using step [OF c] .
  moreover have "R s1 s'" using Cons.IH [of cs1 ids1 s1] Cons.prems c by simp
  ultimately show ?case by (rule trans)
qed

lemma processarBatch_lift:
  assumes refl: "\<And>s. R s s"
    and trans: "\<And>a b c. R a b \<Longrightarrow> R b c \<Longrightarrow> R a c"
    and step: "\<And>bi tb i cs ids s cs' ids' s'.
        processarCliente P onp bi tb i (cs, ids, s) = (cs', ids', s') \<Longrightarrow> R s s'"
    and sl: "\<And>ms s. R s (sleep ms s)"
    and sp: "\<And>ids b s. R s (saveProgress ids b s)"
    and sc: "\<And>s. R s (saveCache s)"
  shows "processarBatch P onp pend tb bi (cs, ids, s) = (cs', ids', s') \<Longrightarrow> R s s'"
proof -
  assume a: "processarBatch P onp pend tb bi (cs, ids, s) = (cs', ids', s')"
  let ?lote = "slice pend (bi * state.batchSize s)
                 (min (bi * state.batchSize s + state.batchSize s) (length pend))"
  obtain cs1 ids1 s1 where l: "processarLote P onp bi tb ?lote (cs, ids, s) = (cs1, ids1, s1)"
    by (cases "processarLote P onp bi tb ?lote (cs, ids, s)") auto
  have 1: "R s s1" using processarLote_lift [of R, OF refl trans step l] .
  let ?s3 = "saveCache (saveProgress ids1 (bi + 1) s1)"
  have 2: "R s1 ?s3" using trans [OF sp sc] .
  have s': "s' = (if bi + 1 < tb then sleep 2000 ?s3 else ?s3)"
    using a l by (auto simp: processarBatch_def)
  have 3: "R ?s3 s'" unfolding s' using sl refl by simp
  show "R s s'" using trans [OF 1 trans [OF 2 3]] .
qed

lemma batchLoop_lift:
  assumes refl: "\<And>s. R s s"
    and trans: "\<And>a b c. R a b \<Longrightarrow> R b c \<Longrightarrow> R a c"
    and step: "\<And>bi tb i cs ids s cs' ids' s'.
        processarCliente P onp bi tb i (cs, ids, s) = (cs', ids', s') \<Longrightarrow> R s s'"
    and sl: "\<And>ms s. R s (sleep ms s)"
    and sp: "\<And>ids b s. R s (saveProgress ids b s)"
    and sc: "\<And>s. R s (saveCache s)"
  shows "batchLoop P onp pend tb bi (cs, ids, s) = (cs', ids', s') \<Longrightarrow> R s s'"
proof (induction "tb - bi" arbitrary: bi cs ids s)
  case 0
  then have "batchLoop P onp pend tb bi (cs, ids, s) = (cs, ids, s)"
    by (subst batchLoop.simps) simp
  then show ?case using 0 refl by simp
next
  case (Suc n)
  then have lt: "bi < tb" by simp
  obtain cs1 ids1 s1 where b: "processarBatch P onp pend tb bi (cs, ids, s) = (cs1, ids1, s1)"
    by (cases "processarBatch P onp pend tb bi (cs, ids, s)") auto
  have 1: "R s s1"
    using processarBatch_lift [of R, OF refl trans step sl sp sc b] .
  have "batchLoop P onp pend tb bi (cs, ids, s) = batchLoop P onp pend tb (bi + 1) (cs1, ids1, s1)"
    using lt b by (subst batchLoop.simps) simp
  then have r: "batchLoop P onp pend tb (bi + 1) (cs1, ids1, s1) = (cs', ids', s')"
    using Suc.prems by simp
  have "n = tb - (bi + 1)" using Suc.hyps(2) by simp
  then have 2: "R s1 s'" using Suc.hyps(1) r by blast
  show ?case using trans [OF 1 2] .
qed

lemma batchLoopKilled_lift:
  assumes refl: "\<And>s. R s s"
    and trans: "\<And>a b c. R a b \<Longrightarrow> R b c \<Longrightarrow> R a c"
    and step: "\<And>bi tb i cs ids s cs' ids' s'.
        processarCliente P onp bi tb i (cs, ids, s) = (cs', ids', s') \<Longrightarrow> R s s'"
    and sl: "\<And>ms s. R s (sleep ms s)"
    and sp: "\<And>ids b s. R s (saveProgress ids b s)"
    and sc: "\<And>s. R s (saveCache s)"
  shows "batchLoopKilled k P onp pend tb bi (cs, ids, s) = (cs', ids', s') \<Longrightarrow> R s s'"
proof (induction k arbitrary: bi cs ids s)
  case 0
  then show ?case using refl by simp
next
  case (Suc k)
  show ?case
  proof (cases "bi < tb")
    case True
    obtain cs1 ids1 s1 where b: "processarBatch P onp pend tb bi (cs, ids, s) = (cs1, ids1, s1)"
      by (cases "processarBatch P onp pend tb bi (cs, ids, s)") auto
    have 1: "R s s1"
      using processarBatch_lift [of R, OF refl trans step sl sp sc b] .
    have r: "batchLoopKilled k P onp pend tb (bi + 1) (cs1, ids1, s1) = (cs', ids', s')"
      using Suc.prems True b by simp
    have 2: "R s1 s'" using Suc.IH [OF r] .
    show ?thesis using trans [OF 1 2] .
  next
    case False
    then show ?thesis using Suc.prems refl by simp
  qed
qed

text \<open>A run returns whenever the batch size is not zero.\<close>

lemma processarClientesOtimizado_returns:
  "state.batchSize s \<noteq> 0 \<Longrightarrow>
   \<exists>cs s'. processarClientesOtimizado P clientes onp resume s = Some (cs, s')"
proof -
  assume "state.batchSize s \<noteq> 0"
  then have "state.batchSize (loadCache (resetStats (length clientes) s)) \<noteq> 0"
    by (simp add: loadCache_def resetStats_def split: option.splits)
  then show ?thesis
    by (simp add: processarClientesOtimizado_def Let_def split: prod.splits)
qed

lemma processarClientesOtimizado_lift:
  assumes refl: "\<And>s. R s s"
    and trans: "\<And>a b c. R a b \<Longrightarrow> R b c \<Longrightarrow> R a c"
    and step: "\<And>bi tb i cs ids s cs' ids' s'.
        processarCliente P onp bi tb i (cs, ids, s) = (cs', ids', s') \<Longrightarrow> R s s'"
    and sl: "\<And>ms s. R s (sleep ms s)"
    and sp: "\<And>ids b s. R s (saveProgress ids b s)"
    and sc: "\<And>s. R s (saveCache s)"
    and run: "processarClientesOtimizado P clientes onp resume s = Some (cs, s')"
  shows "\<exists>s2. R (loadCache (resetStats (length clientes) s)) s2 \<and> s' = finalizar s2"
proof -
  let ?s1 = "loadCache (resetStats (length clientes) s)"
  obtain ids startBatch where rt: "retomar resume ?s1 = (ids, startBatch)"
    by (cases "retomar resume ?s1")
  let ?pend = "clientesPendentes clientes ids"
  let ?tb = "ceilDiv (length ?pend) (state.batchSize ?s1)"
  obtain cs2 ids2 s2 where
    bl: "batchLoop P onp ?pend ?tb startBatch (clientes, ids, ?s1) = (cs2, ids2, s2)"
    by (cases "batchLoop P onp ?pend ?tb startBatch (clientes, ids, ?s1)") auto
  have "s' = finalizar s2"
    using run rt bl by (simp add: processarClientesOtimizado_def Let_def split: if_splits)
  moreover have "R ?s1 s2"
    using batchLoop_lift [of R, OF refl trans step sl sp sc bl] .
  ultimately show ?thesis by blast
qed

lemma umRegistro_naoDecresce: "umRegistro a b \<Longrightarrow> naoDecresce a b"
  by (auto simp: umRegistro_def naoDecresce_def)

lemma transp_naoDecresce: "transp naoDecresce"
  by (auto simp: transp_def naoDecresce_def)

lemma chain_sorted: "successively umRegistro xs \<Longrightarrow> sorted_wrt naoDecresce xs"
proof -
  assume "successively umRegistro xs"
  then have "successively naoDecresce xs"
    by (rule successively_mono) (rule umRegistro_naoDecresce)
  then show ?thesis
    using successively_conv_sorted_wrt [OF transp_naoDecresce] by blast
qed

lemma chain_closed:
  "successively umRegistro (a # sts) \<Longrightarrow>
   processed a = success a + errors a + stats.cached a \<Longrightarrow>
   \<forall>st \<in> set (a # sts). processed st = success st + errors st + stats.cached st"
proof (induction sts arbitrary: a)
  case Nil
  then show ?case by simp
next
  case (Cons b sts)
  then have "umRegistro a b" "successively umRegistro (b # sts)" by simp_all
  moreover from \<open>umRegistro a b\<close> Cons.prems(2)
  have "processed b = success b + errors b + stats.cached b"
    by (auto simp: umRegistro_def)
  ultimately show ?case using Cons.IH [of b] Cons.prems(2) by simp
qed

lemma evolui_sleep: "evolui onp s (sleep ms s)"
  by (rule evolui_same [where evs = "[Sleep ms]"]) (simp_all add: sleep_def)

lemma evolui_saveProgress: "evolui onp s (saveProgress ids b s)"
  by (rule evolui_same [where evs = "[]"]) (simp_all add: saveProgress_def)

lemma evolui_saveCache: "evolui onp s (saveCache s)"
  by (rule evolui_same [where evs = "[]"]) (simp_all add: saveCache_def)

text \<open>
  Claim C10. In a run that returns, the statistics start from the reset counters and move
  record by record: each processed record raises \<open>processed\<close> and exactly one of
  \<open>success\<close>, \<open>errors\<close> and \<open>cached\<close> by one. Hence after each record (these are the
  statistics that the progress callback sees) \<open>processed\<close> is the sum of the three, no
  counter ever decreases, and the final statistics are the last of them, with the end time
  set.
\<close>

theorem stats_counters_invariant:
  assumes "processarClientesOtimizado P clientes onProgress resume s = Some (cs, s')"
  shows "\<exists>evs sts t.
      trace s' = trace s @ evs
    \<and> (if onProgress then snapshots evs = sts else snapshots evs = [])
    \<and> successively umRegistro (state.stats (resetStats (length clientes) s) # sts)
    \<and> sorted_wrt naoDecresce (state.stats (resetStats (length clientes) s) # sts)
    \<and> (\<forall>st \<in> set (state.stats (resetStats (length clientes) s) # sts).
          processed st = success st + errors st + stats.cached st)
    \<and> state.stats s' =
        (last (state.stats (resetStats (length clientes) s) # sts))\<lparr>endTime := Some t\<rparr>"
proof -
  let ?s1 = "loadCache (resetStats (length clientes) s)"
  let ?z = "state.stats (resetStats (length clientes) s)"
  have "\<exists>s2. evolui onProgress ?s1 s2 \<and> s' = finalizar s2"
  proof (rule processarClientesOtimizado_lift
           [where R = "evolui onProgress" and P = P and onp = onProgress])
    show "evolui onProgress a a" for a by (rule evolui_refl)
    show "evolui onProgress a c" if "evolui onProgress a b" "evolui onProgress b c" for a b c
      using that by (rule evolui_trans)
    show "evolui onProgress a b"
      if "processarCliente P onProgress bi tb i (xs, ids, a) = (xs', ids', b)"
      for bi tb i xs ids a xs' ids' b
      using that by (rule processarCliente_evolui)
    show "evolui onProgress a (sleep ms a)" for ms a by (rule evolui_sleep)
    show "evolui onProgress a (saveProgress ids b a)" for ids b a by (rule evolui_saveProgress)
    show "evolui onProgress a (saveCache a)" for a by (rule evolui_saveCache)
    show "processarClientesOtimizado P clientes onProgress resume s = Some (cs, s')"
      by (rule assms)
  qed
  then obtain s2 where ev: "evolui onProgress ?s1 s2" and fin: "s' = finalizar s2"
    by blast
  have st1: "state.stats ?s1 = ?z" and tr1: "trace ?s1 = trace s"
    by (simp_all add: loadCache_def resetStats_def split: option.splits)
  obtain evs sts where e: "trace s2 = trace s @ evs"
      "if onProgress then snapshots evs = sts else snapshots evs = []"
      "successively umRegistro (?z # sts)" "state.stats s2 = last (?z # sts)"
    using ev unfolding evolui_def st1 tr1 by blast
  have z: "processed ?z = success ?z + errors ?z + stats.cached ?z"
    by (simp add: resetStats_def)
  have tr: "trace s' = trace s @ evs"
    using fin e(1) by (simp add: finalizar_def saveCache_def)
  have st: "state.stats s' = (last (?z # sts))\<lparr>endTime := Some (clock s2)\<rparr>"
    using fin e(4) by (simp add: finalizar_def saveCache_def)
  from tr e(2) e(3) chain_sorted [OF e(3)] chain_closed [OF e(3) z] st
  show ?thesis by blast
qed

theorem stats_counters_invariant_witness:
  "\<exists>cs s'.
     processarClientesOtimizado resolveTudo doisClientes True True
       (GeocodingServiceAdvanced semOpcoes ambiente) = Some (cs, s')
   \<and> snapshots (trace s') =
       [\<lparr>stats.total = 2, processed = 1, success = 1, errors = 0, stats.cached = 0,
         startTime = Some 0, endTime = None\<rparr>,
        \<lparr>stats.total = 2, processed = 2, success = 1, errors = 0, stats.cached = 1,
         startTime = Some 0, endTime = None\<rparr>]
   \<and> (\<exists>evs sts t.
        trace s' = trace (GeocodingServiceAdvanced semOpcoes ambiente) @ evs
      \<and> snapshots evs = sts
      \<and> successively umRegistro
          (state.stats (resetStats 2 (GeocodingServiceAdvanced semOpcoes ambiente)) # sts)
      \<and> sorted_wrt naoDecresce
          (state.stats (resetStats 2 (GeocodingServiceAdvanced semOpcoes ambiente)) # sts)
      \<and> state.stats s' =
          (last (state.stats (resetStats 2 (GeocodingServiceAdvanced semOpcoes ambiente)) # sts))
            \<lparr>endTime := Some t\<rparr>)"
proof -
  let ?s = "GeocodingServiceAdvanced semOpcoes ambiente"
  have "state.batchSize ?s \<noteq> 0"
    by (simp add: GeocodingServiceAdvanced_def semOpcoes_def orElse_def)
  then obtain cs s' where
    r: "processarClientesOtimizado resolveTudo doisClientes True True ?s = Some (cs, s')"
    using processarClientesOtimizado_returns by blast
  have "map_option (\<lambda>(cs, s). snapshots (trace s))
          (processarClientesOtimizado resolveTudo doisClientes True True ?s) =
        Some [\<lparr>stats.total = 2, processed = 1, success = 1, errors = 0, stats.cached = 0,
               startTime = Some 0, endTime = None\<rparr>,
              \<lparr>stats.total = 2, processed = 2, success = 1, errors = 0, stats.cached = 1,
               startTime = Some 0, endTime = None\<rparr>]"
    by (simp add: run_defs keys doisClientes_def)
  then have sn: "snapshots (trace s') =
       [\<lparr>stats.total = 2, processed = 1, success = 1, errors = 0, stats.cached = 0,
         startTime = Some 0, endTime = None\<rparr>,
        \<lparr>stats.total = 2, processed = 2, success = 1, errors = 0, stats.cached = 1,
         startTime = Some 0, endTime = None\<rparr>]"
    using r by simp
  have len: "length doisClientes = 2" by (simp add: doisClientes_def)
  from stats_counters_invariant [OF r] r sn show ?thesis
    unfolding len by (simp only: if_True) blast
qed

text \<open>Loading the cache file keeps the entries of the memory cache that it does not contradict.\<close>

lemma fold_update_keeps:
  "map_of m k = Some v \<Longrightarrow> \<forall>v'. (k, v') \<in> set es \<longrightarrow> v' = v \<Longrightarrow>
   map_of (fold (\<lambda>(key, w). AList.update key w) es m) k = Some v"
proof (induction es arbitrary: m)
  case Nil
  then show ?case by simp
next
  case (Cons e es)
  obtain key w where e: "e = (key, w)" by (cases e)
  have "map_of (AList.update key w m) k = Some v"
    using Cons.prems e by (auto simp: update_conv')
  then show ?case using Cons.IH [of "AList.update key w m"] Cons.prems(2) e by simp
qed

lemma loadCache_keeps:
  "cacheFileAgrees s \<Longrightarrow> map_of (memoryCache s) k = Some v \<Longrightarrow>
   map_of (memoryCache (loadCache s)) k = Some v"
  unfolding cacheFileAgrees_def loadCache_def
  by (auto split: option.splits intro!: fold_update_keeps)

lemma memoryCache_loadCache_resetStats:
  "memoryCache (loadCache (resetStats n s)) = memoryCache (loadCache s)"
  by (simp add: loadCache_def resetStats_def split: option.splits)

lemma cacheCresce_sleep: "cacheCresce P s (sleep ms s)"
  by (rule cacheCresce_same) (simp add: sleep_def)

lemma cacheCresce_saveProgress: "cacheCresce P s (saveProgress ids b s)"
  by (rule cacheCresce_same) (simp add: saveProgress_def)

lemma cacheCresce_saveCache: "cacheCresce P s (saveCache s)"
  by (rule cacheCresce_same) (simp add: saveCache_def)

lemma processarClientesOtimizado_cacheCresce:
  assumes "processarClientesOtimizado P clientes onProgress resume s = Some (cs, s')"
  shows "cacheCresce P (loadCache s) s'"
proof -
  let ?s1 = "loadCache (resetStats (length clientes) s)"
  have "\<exists>s2. cacheCresce P ?s1 s2 \<and> s' = finalizar s2"
  proof (rule processarClientesOtimizado_lift
           [where R = "cacheCresce P" and P = P and onp = onProgress])
    show "cacheCresce P a a" for a by (rule cacheCresce_refl)
    show "cacheCresce P a c" if "cacheCresce P a b" "cacheCresce P b c" for a b c
      using that by (rule cacheCresce_trans)
    show "cacheCresce P a b"
      if "processarCliente P onProgress bi tb i (xs, ids, a) = (xs', ids', b)"
      for bi tb i xs ids a xs' ids' b
      using that by (rule processarCliente_cacheCresce)
    show "cacheCresce P a (sleep ms a)" for ms a by (rule cacheCresce_sleep)
    show "cacheCresce P a (saveProgress ids b a)" for ids b a by (rule cacheCresce_saveProgress)
    show "cacheCresce P a (saveCache a)" for a by (rule cacheCresce_saveCache)
    show "processarClientesOtimizado P clientes onProgress resume s = Some (cs, s')"
      by (rule assms)
  qed
  then obtain s2 where c: "cacheCresce P ?s1 s2" and fin: "s' = finalizar s2"
    by blast
  have "memoryCache s' = memoryCache s2"
    using fin by (simp add: finalizar_def saveCache_def)
  then show ?thesis
    using c unfolding cacheCresce_def memoryCache_loadCache_resetStats by simp
qed

text \<open>
  The invariant of the cache holds for a new service and is kept by every run: then the
  cache file never contradicts the memory cache when a run loads it.
\<close>

lemma buscarCoordenadas_frame:
  "buscarCoordenadas P ender tentativa s = (r, s') \<Longrightarrow>
     cacheFile s' = cacheFile s \<and> state.cacheEnabled s' = state.cacheEnabled s"
proof (induction P ender tentativa s arbitrary: r s' rule: buscarCoordenadas.induct)
  case (1 P ender tentativa s)
  let ?s1 = "s\<lparr>requests := requests s + 1, trace := trace s @ [Request ender tentativa]\<rparr>"
  have ax: "axiosGet P ender tentativa s = (P (requests s) (ender @ '', Brasil''), ?s1)"
    by (simp add: axiosGet_def)
  show ?case
  proof (cases "P (requests s) (ender @ '', Brasil'')")
    case (Candidates cands)
    then have "s' = incErrors ?s1 \<or> s' = incSuccess ?s1"
      using 1(2) ax by (cases cands) (simp_all add: buscarCoordenadas.simps [of P ender tentativa s])
    then show ?thesis by (auto simp: incErrors_def incSuccess_def)
  next
    case Failure
    show ?thesis
    proof (cases "tentativa < state.maxRetries ?s1")
      case True
      let ?s2 = "sleep (state.retryDelay ?s1) ?s1"
      have rec: "buscarCoordenadas P ender (tentativa + 1) ?s2 = (r, s')"
        using 1(2) Failure ax True
        by (simp add: buscarCoordenadas.simps [of P ender tentativa s])
      have "cacheFile s' = cacheFile ?s2 \<and> state.cacheEnabled s' = state.cacheEnabled ?s2"
        using 1(1) [OF ax [symmetric] Failure True rec] .
      then show ?thesis by (simp add: sleep_def)
    next
      case False
      then have "s' = incErrors ?s1"
        using 1(2) Failure ax by (simp add: buscarCoordenadas.simps [of P ender tentativa s])
      then show ?thesis by (simp add: incErrors_def)
    qed
  qed
qed

lemma buscarCoordenadasComCache_frame:
  assumes "buscarCoordenadasComCache P ender s = (r, s')"
  shows "cacheFile s' = cacheFile s \<and> state.cacheEnabled s' = state.cacheEnabled s \<and>
     (memoryCache s' = memoryCache s \<or>
         (state.cacheEnabled s \<and> map_of (memoryCache s) (getCacheKey ender) = None \<and>
          (\<exists>v. memoryCache s' = AList.update (getCacheKey ender) v (memoryCache s))))"
proof (cases "map_of (memoryCache s) (getCacheKey ender)")
  case (Some v)
  then have "s' = incCached s" using assms by (simp add: buscarCoordenadasComCache_def)
  then show ?thesis by (simp add: incCached_def)
next
  case None
  obtain r1 s1 where b: "buscarCoordenadas P ender 1 s = (r1, s1)"
    by (cases "buscarCoordenadas P ender 1 s")
  note f = buscarCoordenadas_frame [OF b]
  have m1: "memoryCache s1 = memoryCache s" using buscarCoordenadas_effect [OF b] by simp
  show ?thesis
  proof (cases r1)
    case rn: None
    then have "s' = s1" using assms None b by (simp add: buscarCoordenadasComCache_def)
    then show ?thesis using f m1 by simp
  next
    case (Some v)
    show ?thesis
    proof (cases "state.cacheEnabled s1")
      case True
      then have "s' = s1\<lparr>memoryCache := AList.update (getCacheKey ender) v (memoryCache s1)\<rparr>"
        using assms None b Some by (simp add: buscarCoordenadasComCache_def)
      then show ?thesis using f m1 None True by auto
    next
      case False
      then have "s' = s1" using assms None b Some by (simp add: buscarCoordenadasComCache_def)
      then show ?thesis using f m1 by simp
    qed
  qed
qed

lemma cacheInvRun_cong:
  "memoryCache s' = memoryCache s \<Longrightarrow> cacheFile s' = cacheFile s \<Longrightarrow>
   state.cacheEnabled s' = state.cacheEnabled s \<Longrightarrow> cacheInvRun s' = cacheInvRun s"
  unfolding cacheInvRun_def cacheFileAgrees_def by simp

lemma cacheInvRun_lookup:
  assumes "buscarCoordenadasComCache P ender s = (r, s')" and "cacheInvRun s"
  shows "cacheInvRun s'"
proof -
  have f: "cacheFile s' = cacheFile s" "state.cacheEnabled s' = state.cacheEnabled s"
    and f3: "memoryCache s' = memoryCache s \<or>
         (state.cacheEnabled s \<and> map_of (memoryCache s) (getCacheKey ender) = None \<and>
          (\<exists>v. memoryCache s' = AList.update (getCacheKey ender) v (memoryCache s)))"
    using buscarCoordenadasComCache_frame [OF assms(1)] by blast+
  from f3 show ?thesis
  proof
    assume "memoryCache s' = memoryCache s"
    then show ?thesis using assms(2) cacheInvRun_cong [OF _ f] by simp
  next
    assume a: "state.cacheEnabled s \<and> map_of (memoryCache s) (getCacheKey ender) = None \<and>
          (\<exists>v. memoryCache s' = AList.update (getCacheKey ender) v (memoryCache s))"
    then obtain v where v: "memoryCache s' = AList.update (getCacheKey ender) v (memoryCache s)"
      by blast
    have d: "distinct (map fst (memoryCache s'))"
      using assms(2) v by (simp add: cacheInvRun_def distinct_update)
    have m: "map_of (memoryCache s') = (map_of (memoryCache s))(getCacheKey ender \<mapsto> v)"
      using v by (simp add: update_conv')
    have "map_of (memoryCache s') k = Some w"
      if "cacheFile s = Some es" "(k, w) \<in> set es" for es k w
    proof -
      have "map_of (memoryCache s) k = Some w"
        using assms(2) a that unfolding cacheInvRun_def by auto
      then show ?thesis using m a by auto
    qed
    moreover have "\<forall>file. cacheFile s' = Some file \<longrightarrow> distinct (map fst file)"
      using assms(2) f(1) unfolding cacheInvRun_def by simp
    moreover have "state.cacheEnabled s'" using a f(2) by simp
    ultimately show ?thesis
      unfolding cacheInvRun_def using d f(1) by simp
  qed
qed

lemma cacheInvRun_processarCliente:
  assumes "processarCliente P onp bi tb i (cs, ids, s) = (cs', ids', s')" and "cacheInvRun s"
  shows "cacheInvRun s'"
  using assms(1)
proof (cases rule: processarCliente_cases)
  case skip
  then show ?thesis using assms(2) by simp
next
  case (novo coords s1)
  have "cacheInvRun s1" using cacheInvRun_lookup [OF novo(1) assms(2)] .
  moreover have "cacheInvRun s' = cacheInvRun s1"
    unfolding novo(2)
    by (rule cacheInvRun_cong) (simp_all add: sleep_def callOnProgress_def incProcessed_def)
  ultimately show ?thesis by simp
qed

lemma cacheInvRun_sleep: "cacheInvRun s \<Longrightarrow> cacheInvRun (sleep ms s)"
  using cacheInvRun_cong [of "sleep ms s" s] by (simp add: sleep_def)

lemma cacheInvRun_saveProgress: "cacheInvRun s \<Longrightarrow> cacheInvRun (saveProgress ids b s)"
  using cacheInvRun_cong [of "saveProgress ids b s" s] by (simp add: saveProgress_def)

lemma cacheInvRun_saveCache: "cacheInvRun s \<Longrightarrow> cacheInvRun (saveCache s)"
proof (cases "saveCache s = s")
  case True
  then show "cacheInvRun s \<Longrightarrow> cacheInvRun (saveCache s)" by simp
next
  case False
  then have w: "saveCache s = s\<lparr>cacheFile := Some (memoryCache s)\<rparr>" and e: "state.cacheEnabled s"
    by (auto simp: saveCache_def split: if_splits)
  assume "cacheInvRun s"
  then have d: "distinct (map fst (memoryCache s))" by (simp add: cacheInvRun_def)
  show "cacheInvRun (saveCache s)"
    unfolding w cacheInvRun_def using d e by simp
qed

lemma fold_update_distinct:
  "distinct (map fst m) \<Longrightarrow> distinct (map fst (fold (\<lambda>(key, w). AList.update key w) es m))"
proof (induction es arbitrary: m)
  case Nil
  then show ?case by simp
next
  case (Cons e es)
  obtain key w where e: "e = (key, w)" by (cases e)
  have "distinct (map fst (AList.update key w m))" using Cons.prems by (simp add: distinct_update)
  then show ?case using Cons.IH [of "AList.update key w m"] e by simp
qed

lemma fold_update_loads:
  "distinct (map fst es) \<Longrightarrow> (k, v) \<in> set es \<Longrightarrow>
   map_of (fold (\<lambda>(key, w). AList.update key w) es m) k = Some v"
proof (induction es arbitrary: m)
  case Nil
  then show ?case by simp
next
  case (Cons e es)
  obtain key w where e: "e = (key, w)" by (cases e)
  show ?case
  proof (cases "(k, v) \<in> set es")
    case True
    then show ?thesis using Cons.IH [of "AList.update key w m"] Cons.prems(1) e by simp
  next
    case False
    then have kv: "key = k" "w = v" using Cons.prems(2) e by simp_all
    have "\<forall>v'. (k, v') \<in> set es \<longrightarrow> v' = v"
      using Cons.prems(1) e kv by (auto simp: image_iff)
    moreover have "map_of (AList.update key w m) k = Some v"
      using kv by (simp add: update_conv')
    ultimately show ?thesis
      using fold_update_keeps [of "AList.update key w m" k v es] e by simp
  qed
qed

lemma cacheInvRun_disabled: "\<not> state.cacheEnabled s \<Longrightarrow> cacheInvRun s = cacheInv s"
  unfolding cacheInvRun_def cacheInv_def by simp

lemma cacheInvRun_imp_cacheInv:
  assumes "cacheInvRun s"
  shows "cacheInv s"
proof (cases "state.cacheEnabled s")
  case False
  then show ?thesis using assms cacheInvRun_disabled by simp
next
  case True
  then have sub: "\<forall>es k v. cacheFile s = Some es \<and> (k, v) \<in> set es \<longrightarrow>
             map_of (memoryCache s) k = Some v"
    using assms unfolding cacheInvRun_def by (auto simp del: map_of_eq_Some_iff)
  have "cacheFileAgrees s"
    unfolding cacheFileAgrees_def
  proof (intro allI impI)
    fix es k v v'
    assume "cacheFile s = Some es \<and> (k, v') \<in> set es \<and> map_of (memoryCache s) k = Some v"
    then have "map_of (memoryCache s) k = Some v'" "map_of (memoryCache s) k = Some v"
      using sub by blast+
    then show "v' = v" by simp
  qed
  then show ?thesis
    using assms unfolding cacheInvRun_def cacheInv_def by (simp del: map_of_eq_Some_iff)
qed

lemma cacheInvRun_loadCache:
  assumes "cacheInv s"
  shows "cacheInvRun (loadCache (resetStats n s))"
proof (cases "state.cacheEnabled s")
  case False
  then have l: "loadCache (resetStats n s) = resetStats n s"
    by (simp add: loadCache_def resetStats_def)
  have "cacheInvRun (resetStats n s) = cacheInvRun s"
    by (rule cacheInvRun_cong) (simp_all add: resetStats_def)
  then show ?thesis using assms False cacheInvRun_disabled l by simp
next
  case True
  have dm: "distinct (map fst (memoryCache s))" using assms by (simp add: cacheInv_def)
  show ?thesis
  proof (cases "cacheFile s")
    case None
    then have "loadCache (resetStats n s) = resetStats n s"
      by (simp add: loadCache_def resetStats_def)
    moreover have "cacheInvRun (resetStats n s) = cacheInvRun s"
      by (rule cacheInvRun_cong) (simp_all add: resetStats_def)
    moreover have "cacheInvRun s"
      unfolding cacheInvRun_def cacheFileAgrees_def using dm None by simp
    ultimately show ?thesis by simp
  next
    case (Some es)
    then have d: "distinct (map fst es)" using assms by (simp add: cacheInv_def)
    have m: "memoryCache (loadCache (resetStats n s)) =
             fold (\<lambda>(key, w). AList.update key w) es (memoryCache s)"
      using True Some by (simp add: loadCache_def resetStats_def)
    have f: "cacheFile (loadCache (resetStats n s)) = Some es"
      and e: "state.cacheEnabled (loadCache (resetStats n s))"
      using True Some by (simp_all add: loadCache_def resetStats_def)
    have d': "distinct (map fst (memoryCache (loadCache (resetStats n s))))"
      unfolding m using dm by (rule fold_update_distinct)
    have "map_of (memoryCache (loadCache (resetStats n s))) k = Some v"
      if "(k, v) \<in> set es" for k v
      unfolding m using d that by (rule fold_update_loads)
    then show ?thesis
      unfolding cacheInvRun_def using d d' f e by (simp del: map_of_eq_Some_iff)
  qed
qed

lemma cacheInv_finalizar: "cacheInvRun s \<Longrightarrow> cacheInv (finalizar s)"
proof -
  let ?s = "s\<lparr>state.stats := (state.stats s)\<lparr>endTime := Some (clock s)\<rparr>\<rparr>"
  assume a: "cacheInvRun s"
  have "cacheInvRun ?s = cacheInvRun s"
    by (rule cacheInvRun_cong) simp_all
  then have "cacheInvRun (saveCache ?s)" using a cacheInvRun_saveCache by simp
  then have "cacheInvRun (finalizar s)" by (simp add: finalizar_def)
  then show ?thesis by (rule cacheInvRun_imp_cacheInv)
qed

lemma processarClientesOtimizado_cacheInv:
  assumes "processarClientesOtimizado P clientes onProgress resume s = Some (cs, s')"
    and "cacheInv s"
  shows "cacheInv s'"
proof -
  let ?s1 = "loadCache (resetStats (length clientes) s)"
  have "\<exists>s2. (cacheInvRun ?s1 \<longrightarrow> cacheInvRun s2) \<and> s' = finalizar s2"
  proof (rule processarClientesOtimizado_lift
           [where R = "\<lambda>a b. cacheInvRun a \<longrightarrow> cacheInvRun b" and P = P and onp = onProgress])
    show "cacheInvRun a \<longrightarrow> cacheInvRun a" for a by simp
    show "cacheInvRun a \<longrightarrow> cacheInvRun c"
      if "cacheInvRun a \<longrightarrow> cacheInvRun b" "cacheInvRun b \<longrightarrow> cacheInvRun c" for a b c
      using that by simp
    show "cacheInvRun a \<longrightarrow> cacheInvRun b"
      if "processarCliente P onProgress bi tb i (xs, ids, a) = (xs', ids', b)"
      for bi tb i xs ids a xs' ids' b
      using cacheInvRun_processarCliente [OF that] by simp
    show "cacheInvRun a \<longrightarrow> cacheInvRun (sleep ms a)" for ms a
      using cacheInvRun_sleep by simp
    show "cacheInvRun a \<longrightarrow> cacheInvRun (saveProgress ids b a)" for ids b a
      using cacheInvRun_saveProgress by simp
    show "cacheInvRun a \<longrightarrow> cacheInvRun (saveCache a)" for a
      using cacheInvRun_saveCache by simp
    show "processarClientesOtimizado P clientes onProgress resume s = Some (cs, s')"
      by (rule assms)
  qed
  then obtain s2 where "cacheInvRun ?s1 \<longrightarrow> cacheInvRun s2" and fin: "s' = finalizar s2"
    by blast
  then have "cacheInvRun s2" using cacheInvRun_loadCache [OF assms(2)] by simp
  then show ?thesis unfolding fin by (rule cacheInv_finalizar)
qed

lemma cacheInv_GeocodingServiceAdvanced:
  "\<forall>file. cacheFile env = Some file \<longrightarrow> distinct (map fst file) \<Longrightarrow>
   cacheInv (GeocodingServiceAdvanced opts env)"
  by (simp add: cacheInv_def cacheFileAgrees_def GeocodingServiceAdvanced_def)

text \<open>
  Claim C8. A lookup through the cache that fails leaves the memory cache as it was, and one
  that succeeds keeps every entry and adds at most the candidate that the provider returned,
  under the key of the address. In a run that returns, every entry that the memory cache
  holds once the cache file is loaded is still there, with the same value, at the end, and
  every other entry of the end is such a candidate. The entries that the memory cache held
  before the run are kept as well when the cache file does not contradict them. It never
  does: the invariant of the cache, which says so, holds for a new service and is kept by
  every run.
\<close>

theorem cache_append_only:
  "(buscarCoordenadasComCache P ender s = (r, s1) \<longrightarrow>
      cacheCresce P s s1 \<and> (r = None \<longrightarrow> memoryCache s1 = memoryCache s))
   \<and> (processarClientesOtimizado P clientes onProgress resume s = Some (cs, s') \<longrightarrow>
      cacheCresce P (loadCache s) s'
      \<and> (cacheFileAgrees s \<longrightarrow>
           (\<forall>k v. map_of (memoryCache s) k = Some v \<longrightarrow> map_of (memoryCache s') k = Some v))
      \<and> (cacheInv s \<longrightarrow> cacheInv s' \<and> cacheFileAgrees s'))
   \<and> ((\<forall>es. cacheFile env = Some es \<longrightarrow> distinct (map fst es)) \<longrightarrow>
        cacheInv (GeocodingServiceAdvanced opts env) \<and>
        cacheFileAgrees (GeocodingServiceAdvanced opts env))"
proof -
  have a: "cacheCresce P s s1 \<and> (r = None \<longrightarrow> memoryCache s1 = memoryCache s)"
    if "buscarCoordenadasComCache P ender s = (r, s1)"
    using buscarCoordenadasComCache_effect(3,4) [OF that] by blast
  have b: "cacheCresce P (loadCache s) s'
      \<and> (cacheFileAgrees s \<longrightarrow>
           (\<forall>k v. map_of (memoryCache s) k = Some v \<longrightarrow> map_of (memoryCache s') k = Some v))
      \<and> (cacheInv s \<longrightarrow> cacheInv s' \<and> cacheFileAgrees s')"
    if run: "processarClientesOtimizado P clientes onProgress resume s = Some (cs, s')"
  proof -
    have c: "cacheCresce P (loadCache s) s'"
      using processarClientesOtimizado_cacheCresce [OF run] .
    have k: "map_of (memoryCache s') k = Some v"
      if "cacheFileAgrees s" "map_of (memoryCache s) k = Some v" for k v
      using loadCache_keeps [OF that] c unfolding cacheCresce_def by blast
    have i: "cacheInv s' \<and> cacheFileAgrees s'" if "cacheInv s"
      using processarClientesOtimizado_cacheInv [OF run that] by (simp add: cacheInv_def)
    from c k i show ?thesis by blast
  qed
  have n: "cacheInv (GeocodingServiceAdvanced opts env) \<and>
        cacheFileAgrees (GeocodingServiceAdvanced opts env)"
    if "\<forall>es. cacheFile env = Some es \<longrightarrow> distinct (map fst es)"
    using cacheInv_GeocodingServiceAdvanced [OF that] by (simp add: cacheInv_def)
  from a b n show ?thesis by blast
qed

theorem cache_append_only_witness:
  "\<exists>s1 cs s'.
     buscarCoordenadasComCache foraDoAr ''Rua A, 1'' (GeocodingServiceAdvanced semOpcoes ambiente) =
       (None, s1)
   \<and> memoryCache s1 = []
   \<and> processarClientesOtimizado resolveTudo clientesAposKill False True
       (GeocodingServiceAdvanced lotesDeDois estadoAposKill) = Some (cs, s')
   \<and> cacheInv (GeocodingServiceAdvanced lotesDeDois estadoAposKill)
   \<and> memoryCache (loadCache (GeocodingServiceAdvanced lotesDeDois estadoAposKill)) = cacheAposKill
   \<and> cacheCresce resolveTudo (loadCache (GeocodingServiceAdvanced lotesDeDois estadoAposKill)) s'
   \<and> cacheInv s'"
proof -
  let ?s = "GeocodingServiceAdvanced semOpcoes ambiente"
  let ?t = "GeocodingServiceAdvanced lotesDeDois estadoAposKill"
  obtain r s1 where l: "buscarCoordenadasComCache foraDoAr ''Rua A, 1'' ?s = (r, s1)"
    by (cases "buscarCoordenadasComCache foraDoAr ''Rua A, 1'' ?s")
  have "fst (buscarCoordenadasComCache foraDoAr ''Rua A, 1'' ?s) = None"
    by (simp add: buscarCoordenadasComCache_def keys GeocodingServiceAdvanced_def semOpcoes_def
          ambiente_def orElse_def foraDoAr_def axiosGet_def sleep_def incErrors_def
          buscarCoordenadas.simps)
  then have rn: "r = None" using l by simp
  have m0: "memoryCache ?s = []" by (simp add: GeocodingServiceAdvanced_def)
  have "state.batchSize ?t \<noteq> 0"
    by (simp add: GeocodingServiceAdvanced_def lotesDeDois_def orElse_def)
  then obtain cs s' where
    run: "processarClientesOtimizado resolveTudo clientesAposKill False True ?t = Some (cs, s')"
    using processarClientesOtimizado_returns by blast
  have df: "\<forall>es. cacheFile estadoAposKill = Some es \<longrightarrow> distinct (map fst es)"
    by (simp add: estadoAposKill_def cacheAposKill_def)
  have lc: "memoryCache (loadCache ?t) = cacheAposKill"
    by (simp add: loadCache_def GeocodingServiceAdvanced_def estadoAposKill_def cacheAposKill_def
          lotesDeDois_def)
  from cache_append_only
         [where P = foraDoAr and ender = "''Rua A, 1''" and s = ?s and r = r and ?s1.0 = s1]
       l rn m0
  have 1: "buscarCoordenadasComCache foraDoAr ''Rua A, 1'' ?s = (None, s1) \<and> memoryCache s1 = []"
    by simp
  from cache_append_only [where env = estadoAposKill and opts = lotesDeDois] df
  have 2: "cacheInv ?t"
    by blast
  from cache_append_only
         [where P = resolveTudo and clientes = clientesAposKill and onProgress = False
            and resume = True and s = ?t and cs = cs and s' = s']
       run 2
  have 3: "cacheCresce resolveTudo (loadCache ?t) s' \<and> cacheInv s'"
    by blast
  from 1 2 3 run lc show ?thesis by blast
qed

end
